theory Spec2Isabelle
  imports Main "HOL-Library.AList"
begin

section \<open>Exceptions and outcomes\<close>

text \<open>
  The program raises three built-in exception classes, and \<open>input_error\<close> catches
  exactly these three. An exception is a value; an operation that mutates an object and may
  raise returns the pair of what it returned or raised and the object as it is afterwards,
  so a mutation made before a \<open>raise\<close> is kept in the model as it is in Python.

  The Python \<open>str\<close> of the records and of the commands is modelled as a
  \<open>string\<close>, one \<open>char\<close> per code point; these parts of the model therefore
  cover the code points 0 to 255. In that range the regular expression class \<open>\d\<close>
  is exactly the ten characters 0 to 9. The parser of birthdays is modelled on every
  \<open>str\<close>, as a list of code points.
\<close>

datatype exn = ValueError string | KeyError string | IndexError string

type_synonym ('a, 's) outcome = "(exn + 'a) \<times> 's"

text \<open>
  \<open>str(e)\<close>: the message of a \<open>ValueError\<close> or \<open>IndexError\<close>; for a
  \<open>KeyError\<close> the \<open>repr\<close> of the message. \<open>py_repr\<close> is \<open>repr\<close> on the
  strings it leaves as they are between single quotes, those with no quote, no backslash
  and no control character: the only \<open>KeyError\<close> message of the program is one, and
  no other use of \<open>repr\<close> reaches a result of the program.
\<close>

definition py_repr :: "string \<Rightarrow> string" where
  "py_repr m = [CHR 0x27] @ m @ [CHR 0x27]"

definition exn_str :: "exn \<Rightarrow> string" where
  "exn_str e = (case e of
      ValueError m \<Rightarrow> m
    | IndexError m \<Rightarrow> m
    | KeyError m \<Rightarrow> py_repr m)"

section \<open>Fields\<close>

text \<open>\<open>Name.__init__\<close>: an empty value is refused.\<close>

definition Name_init :: "string \<Rightarrow> exn + string" where
  "Name_init v = (if v = [] then Inl (ValueError ''Name is required.'') else Inr v)"

text \<open>
  \<open>Phone.validate\<close> is \<open>bool(re.match(r'^\d{10}$', value))\<close>. \<open>match_digits n\<close>
  is \<open>\d{n}\<close> at the start of the string and gives what is left of it;
  \<open>char_class\<close> is a character class such as \<open>[0-1]\<close>, given by its characters. Without the
  MULTILINE flag, \<open>$\<close> matches at the end of the string and also just before a
  newline that is the last character.
\<close>

definition char_class :: "string \<Rightarrow> char \<Rightarrow> bool" where
  "char_class cs c = (c \<in> set cs)"

definition is_digit :: "char \<Rightarrow> bool" where
  "is_digit c = char_class ''0123456789'' c"

fun match_digits :: "nat \<Rightarrow> string \<Rightarrow> string option" where
  "match_digits 0 s = Some s"
| "match_digits (Suc n) [] = None"
| "match_digits (Suc n) (c # s) = (if is_digit c then match_digits n s else None)"

definition validate :: "string \<Rightarrow> bool" where
  "validate v = (case match_digits 10 v of
      None \<Rightarrow> False
    | Some rest \<Rightarrow> rest = [] \<or> rest = ''\<newline>'')"

definition Phone_init :: "string \<Rightarrow> exn + string" where
  "Phone_init v =
     (if \<not> validate v
      then Inl (ValueError ''Invalid phone number format. It must be 10 digits.'')
      else Inr v)"

section \<open>Calendar dates\<close>

text \<open>
  \<open>datetime.date\<close>: a year from 1 to 9999, a month and a day of that month in the
  proleptic Gregorian calendar. \<open>date_new\<close> is the constructor with its range checks,
  \<open>replace_year\<close> is \<open>d.replace(year=y)\<close>, which builds a new date from the same
  month and day and so raises for 29 February in a year that is not a leap year.
  The texts of the library's messages are those of CPython 3.11.
\<close>

record date =
  year :: nat
  month :: nat
  day :: nat

definition digit_char :: "nat \<Rightarrow> char" where
  "digit_char k = char_of (48 + k)"

fun str_nat :: "nat \<Rightarrow> string" where
  "str_nat n = (if n < 10 then [digit_char n] else str_nat (n div 10) @ [digit_char (n mod 10)])"

declare str_nat.simps [simp del]

definition is_leap :: "nat \<Rightarrow> bool" where
  "is_leap y = (y mod 4 = 0 \<and> (y mod 100 \<noteq> 0 \<or> y mod 400 = 0))"

definition days_in_month :: "nat \<Rightarrow> nat \<Rightarrow> nat" where
  "days_in_month y m =
     (if m = 2 then (if is_leap y then 29 else 28)
      else if m = 4 \<or> m = 6 \<or> m = 9 \<or> m = 11 then 30 else 31)"

definition date_new :: "nat \<Rightarrow> nat \<Rightarrow> nat \<Rightarrow> exn + date" where
  "date_new y m d =
     (if y < 1 \<or> 9999 < y then Inl (ValueError (''year '' @ str_nat y @ '' is out of range''))
      else if m < 1 \<or> 12 < m then Inl (ValueError ''month must be in 1..12'')
      else if d < 1 \<or> days_in_month y m < d then Inl (ValueError ''day is out of range for month'')
      else Inr \<lparr>year = y, month = m, day = d\<rparr>)"

definition replace_year :: "date \<Rightarrow> nat \<Rightarrow> exn + date" where
  "replace_year d y = date_new y (month d) (day d)"

text \<open>Dates compare as the triples (year, month, day).\<close>

definition date_less :: "date \<Rightarrow> date \<Rightarrow> bool" where
  "date_less a b =
     (year a < year b \<or> (year a = year b \<and>
        (month a < month b \<or> (month a = month b \<and> day a < day b))))"

text \<open>
  \<open>toordinal\<close>: the number of the day, 1 January of year 1 being day 1. The
  difference of two dates is the difference of their ordinals, in days.
\<close>

definition days_before_year :: "nat \<Rightarrow> int" where
  "days_before_year y =
     (let p = int y - 1 in p * 365 + p div 4 - p div 100 + p div 400)"

definition days_before_month :: "nat \<Rightarrow> nat \<Rightarrow> int" where
  "days_before_month y m = (\<Sum>k \<leftarrow> [1..<m]. int (days_in_month y k))"

definition toordinal :: "date \<Rightarrow> int" where
  "toordinal d = days_before_year (year d) + days_before_month (year d) (month d) + int (day d)"

definition days_between :: "date \<Rightarrow> date \<Rightarrow> int" where
  "days_between a b = toordinal a - toordinal b"

section \<open>Contact records\<close>

text \<open>
  A \<open>Record\<close> holds its name, the list of its phones in insertion order and an
  optional birthday. Each \<open>Phone\<close> object holds one string, and no list ever holds the
  same object twice (\<open>add_phone\<close> creates a new one each time), so the list of phone
  objects is modelled as the list of their values.
\<close>

record Record =
  name :: string
  phones :: "string list"
  birthday :: "date option"

definition Record_init :: "string \<Rightarrow> exn + Record" where
  "Record_init n = (case Name_init n of
      Inl e \<Rightarrow> Inl e
    | Inr v \<Rightarrow> Inr \<lparr>name = v, phones = [], birthday = None\<rparr>)"

definition add_phone :: "string \<Rightarrow> Record \<Rightarrow> (unit, Record) outcome" where
  "add_phone phone_number r = (case Phone_init phone_number of
      Inl e \<Rightarrow> (Inl e, r)
    | Inr phone \<Rightarrow> (Inr (), r\<lparr>phones := phones r @ [phone]\<rparr>))"

text \<open>\<open>find_phone\<close>: the first phone of the list with the given value, or \<open>None\<close>.\<close>

fun find_phone_in :: "string \<Rightarrow> string list \<Rightarrow> string option" where
  "find_phone_in phone_number [] = None"
| "find_phone_in phone_number (phone # rest) =
     (if phone = phone_number then Some phone else find_phone_in phone_number rest)"

definition find_phone :: "string \<Rightarrow> Record \<Rightarrow> string option" where
  "find_phone phone_number r = find_phone_in phone_number (phones r)"

text \<open>
  \<open>remove_phone\<close>: \<open>list.remove\<close> takes out the first element equal to the object
  found, which is the first phone with that value. A phone object is always true in a
  condition, so the \<open>else\<close> branch is the branch of \<open>find_phone\<close> returning \<open>None\<close>.
\<close>

definition remove_phone :: "string \<Rightarrow> Record \<Rightarrow> (unit, Record) outcome" where
  "remove_phone phone_number r = (case find_phone phone_number r of
      Some phone_to_remove \<Rightarrow> (Inr (), r\<lparr>phones := remove1 phone_to_remove (phones r)\<rparr>)
    | None \<Rightarrow> (Inl (ValueError ''Phone number not found.''), r))"

definition edit_phone :: "string \<Rightarrow> string \<Rightarrow> Record \<Rightarrow> (unit, Record) outcome" where
  "edit_phone old_phone_number new_phone_number r = (case find_phone old_phone_number r of
      Some phone_to_edit \<Rightarrow>
        (case remove_phone old_phone_number r of
           (Inl e, r1) \<Rightarrow> (Inl e, r1)
         | (Inr u, r1) \<Rightarrow> add_phone new_phone_number r1)
    | None \<Rightarrow> (Inl (ValueError ''Phone number not found.''), r))"

text \<open>
  \<open>days_to_birthday\<close>. The date of today comes from the clock and is a parameter.
  A birthday object is always true in a condition, so the test is whether one is set.
\<close>

definition days_to_birthday :: "date \<Rightarrow> Record \<Rightarrow> exn + int option" where
  "days_to_birthday today r = (case birthday r of
      Some b \<Rightarrow>
        (case replace_year b (year today) of
           Inl e \<Rightarrow> Inl e
         | Inr next_birthday \<Rightarrow>
             if date_less next_birthday today
             then (case replace_year b (year today + 1) of
                     Inl e \<Rightarrow> Inl e
                   | Inr next_birthday1 \<Rightarrow> Inr (Some (days_between next_birthday1 today)))
             else Inr (Some (days_between next_birthday today)))
    | None \<Rightarrow> Inr None)"

section \<open>Parsing a birthday\<close>

text \<open>
  \<open>datetime.strptime(value, "%d.%m.%Y")\<close> compiles the format into the regular expression
  \<^verbatim>\<open>(?P<d>3[0-1]|[1-2]\d|0[1-9]|[1-9]| [1-9])\.(?P<m>1[0-2]|0[1-9]|[1-9])\.(?P<Y>\d\d\d\d)\<close>,
  matches it at the start of the string, raises when it does not match or when the match
  ends before the string does, converts the three groups with \<open>int\<close> and builds the
  date, which raises when the date does not exist.

  The parser tells characters beyond 255 apart, so it is modelled on the Python \<open>str\<close>
  as it is, a list of code points. For a \<open>str\<close> the class \<open>\d\<close> is every
  character that has a decimal digit value in the Unicode database, and \<open>int\<close>
  converts each such character by that value. The characters and ranges written out in the
  expression (\<open>3\<close>, \<open>[0-1]\<close>, \<open>[1-2]\<close>, \<open>[1-9]\<close>, the blank, the dot)
  have no case, so the flag IGNORECASE of the expression does not widen them: they match the
  ASCII characters only. The table of the database is the parameter \<open>decimal\<close>:
  \<open>decimal c\<close> is \<open>unicodedata.decimal(chr(c))\<close>, and \<open>None\<close> when the
  character has no decimal digit value.

  A group is modelled as the list of its matches, each the text matched and the rest of the
  string, in the order in which the alternatives are tried. The whole expression tries them
  in that order and backtracks, so its matches are listed in the order of the search and
  the first of them is the match found.
\<close>

type_synonym code_point = nat

type_synonym unicode = "code_point list"

definition py_ord :: "char \<Rightarrow> code_point" where
  "py_ord c = of_char c"

definition char_range :: "char \<Rightarrow> char \<Rightarrow> code_point \<Rightarrow> bool" where
  "char_range lo hi c = (py_ord lo \<le> c \<and> c \<le> py_ord hi)"

definition group_d :: "(code_point \<Rightarrow> nat option) \<Rightarrow> unicode \<Rightarrow> (unicode \<times> unicode) list" where
  "group_d decimal s =
     (case s of
        a # b # r \<Rightarrow>
          (if a = py_ord CHR ''3'' \<and> char_range CHR ''0'' CHR ''1'' b then [([a, b], r)] else []) @
          (if char_range CHR ''1'' CHR ''2'' a \<and> decimal b \<noteq> None then [([a, b], r)] else []) @
          (if a = py_ord CHR ''0'' \<and> char_range CHR ''1'' CHR ''9'' b then [([a, b], r)] else [])
      | _ \<Rightarrow> []) @
     (case s of
        a # r \<Rightarrow> (if char_range CHR ''1'' CHR ''9'' a then [([a], r)] else [])
      | [] \<Rightarrow> []) @
     (case s of
        a # b # r \<Rightarrow>
          (if a = py_ord CHR '' '' \<and> char_range CHR ''1'' CHR ''9'' b then [([a, b], r)] else [])
      | _ \<Rightarrow> [])"

definition group_m :: "unicode \<Rightarrow> (unicode \<times> unicode) list" where
  "group_m s =
     (case s of
        a # b # r \<Rightarrow>
          (if a = py_ord CHR ''1'' \<and> char_range CHR ''0'' CHR ''2'' b then [([a, b], r)] else []) @
          (if a = py_ord CHR ''0'' \<and> char_range CHR ''1'' CHR ''9'' b then [([a, b], r)] else [])
      | _ \<Rightarrow> []) @
     (case s of
        a # r \<Rightarrow> (if char_range CHR ''1'' CHR ''9'' a then [([a], r)] else [])
      | [] \<Rightarrow> [])"

definition group_Y :: "(code_point \<Rightarrow> nat option) \<Rightarrow> unicode \<Rightarrow> (unicode \<times> unicode) list" where
  "group_Y decimal s =
     (case s of
        a # b # c # d # r \<Rightarrow>
          (if decimal a \<noteq> None \<and> decimal b \<noteq> None \<and> decimal c \<noteq> None \<and> decimal d \<noteq> None
           then [([a, b, c, d], r)] else [])
      | _ \<Rightarrow> [])"

definition literal_dot :: "unicode \<Rightarrow> unicode list" where
  "literal_dot s = (case s of c # r \<Rightarrow> (if c = py_ord CHR ''.'' then [r] else []) | [] \<Rightarrow> [])"

definition format_matches ::
  "(code_point \<Rightarrow> nat option) \<Rightarrow> unicode \<Rightarrow> (unicode \<times> unicode \<times> unicode \<times> unicode) list" where
  "format_matches decimal s =
     [(d, m, y, r5). (d, r1) \<leftarrow> group_d decimal s, r2 \<leftarrow> literal_dot r1, (m, r3) \<leftarrow> group_m r2,
                     r4 \<leftarrow> literal_dot r3, (y, r5) \<leftarrow> group_Y decimal r4]"

text \<open>
  \<open>int\<close> of the text of a group: the number written by its decimal digits, each taken
  by its value in the table, after the blank that the day may start with. \<open>None\<close> is
  the \<open>ValueError\<close> of \<open>int\<close> for a text with no digit or with another character.
\<close>

fun int_digits :: "(code_point \<Rightarrow> nat option) \<Rightarrow> nat \<Rightarrow> unicode \<Rightarrow> nat option" where
  "int_digits decimal n [] = Some n"
| "int_digits decimal n (c # cs) =
     (case decimal c of None \<Rightarrow> None | Some v \<Rightarrow> int_digits decimal (10 * n + v) cs)"

definition py_int :: "(code_point \<Rightarrow> nat option) \<Rightarrow> unicode \<Rightarrow> nat option" where
  "py_int decimal s =
     (case dropWhile (\<lambda>c. c = py_ord CHR '' '') s of
        [] \<Rightarrow> None
      | c # cs \<Rightarrow> int_digits decimal 0 (c # cs))"

text \<open>
  The texts of the two messages of \<open>strptime\<close> also quote the string; they are given
  without it, since \<open>Birthday.__init__\<close> replaces them and they reach no result.
\<close>

definition strptime :: "(code_point \<Rightarrow> nat option) \<Rightarrow> unicode \<Rightarrow> exn + date" where
  "strptime decimal s = (case format_matches decimal s of
      [] \<Rightarrow> Inl (ValueError ''time data does not match format'')
    | (d, m, y, rest) # others \<Rightarrow>
        if rest \<noteq> [] then Inl (ValueError ''unconverted data remains'')
        else (case py_int decimal d of
                None \<Rightarrow> Inl (ValueError ''invalid literal for int() with base 10'')
              | Some dd \<Rightarrow>
                  (case py_int decimal m of
                     None \<Rightarrow> Inl (ValueError ''invalid literal for int() with base 10'')
                   | Some mm \<Rightarrow>
                       (case py_int decimal y of
                          None \<Rightarrow> Inl (ValueError ''invalid literal for int() with base 10'')
                        | Some yy \<Rightarrow> date_new yy mm dd))))"

text \<open>
  \<open>Birthday.__init__\<close> replaces every \<open>ValueError\<close> of the parser by its own.
  \<open>Birthday_unicode\<close> is the constructor on a \<open>str\<close> of any code points.
\<close>

definition Birthday_unicode :: "(code_point \<Rightarrow> nat option) \<Rightarrow> unicode \<Rightarrow> exn + date" where
  "Birthday_unicode decimal v = (case strptime decimal v of
      Inr d \<Rightarrow> Inr d
    | Inl e \<Rightarrow> (case e of
        ValueError m \<Rightarrow> Inl (ValueError ''Invalid date format. Use DD.MM.YYYY'')
      | _ \<Rightarrow> Inl e))"

text \<open>
  The records and the commands are modelled on strings of the code points 0 to 255. Of
  these only the ten characters 0 to 9 have a decimal digit value: \<open>latin1_decimal\<close> is
  the table of the database on this range, and \<open>Birthday_init\<close> is the constructor on
  such a string.
\<close>

definition latin1_decimal :: "code_point \<Rightarrow> nat option" where
  "latin1_decimal c =
     (if char_range CHR ''0'' CHR ''9'' c then Some (c - py_ord CHR ''0'') else None)"

definition Birthday_init :: "string \<Rightarrow> exn + date" where
  "Birthday_init v = Birthday_unicode latin1_decimal (map py_ord v)"

definition add_birthday :: "string \<Rightarrow> Record \<Rightarrow> (unit, Record) outcome" where
  "add_birthday b r = (case Birthday_init b of
      Inl e \<Rightarrow> (Inl e, r)
    | Inr d \<Rightarrow> (Inr (), r\<lparr>birthday := Some d\<rparr>))"

section \<open>Rendering\<close>

text \<open>
  \<open>sep.join(items)\<close>. The rendering of a date by \<open>strftime('%d.%m.%Y')\<close> is a
  parameter of what prints a date: how the C library pads a year below 1000 differs
  between platforms.
\<close>

fun join :: "string \<Rightarrow> string list \<Rightarrow> string" where
  "join sep [] = []"
| "join sep [x] = x"
| "join sep (x # y # ys) = x @ sep @ join sep (y # ys)"

definition Record_str :: "(date \<Rightarrow> string) \<Rightarrow> Record \<Rightarrow> string" where
  "Record_str strftime r =
     ''Contact name: '' @ name r @ '', phones: '' @ join ''; '' (phones r) @
     (case birthday r of Some d \<Rightarrow> '', birthday: '' @ strftime d | None \<Rightarrow> [])"

section \<open>The address book\<close>

text \<open>
  \<open>AddressBook\<close> is a \<open>UserDict\<close>: a dictionary from names to records that keeps
  the order of insertion. It is modelled as the list of its items in that order. Storing
  under a key that is present replaces the value where it stands, storing under a new key
  appends the item (\<open>AList.update\<close>); \<open>del\<close> takes the item out (\<open>AList.delete\<close>).
\<close>

type_synonym AddressBook = "(string \<times> Record) list"

definition add_record :: "Record \<Rightarrow> AddressBook \<Rightarrow> AddressBook" where
  "add_record r book = AList.update (name r) r book"

definition book_find :: "string \<Rightarrow> AddressBook \<Rightarrow> Record option" where
  "book_find n book = map_of book n"

definition delete :: "string \<Rightarrow> AddressBook \<Rightarrow> (unit, AddressBook) outcome" where
  "delete n book =
     (if n \<in> fst ` set book then (Inr (), AList.delete n book)
      else (Inl (KeyError ''Contact not found.''), book))"

text \<open>
  \<open>get_upcoming_birthdays\<close>: the loop over the values of the dictionary, with the
  list built so far. An exception of \<open>days_to_birthday\<close> ends the loop and the call.
  Every call of \<open>days_to_birthday\<close> reads the clock; the model gives them all the same
  date, that of a scan that does not run over midnight.
\<close>

fun upcoming_loop :: "date \<Rightarrow> Record list \<Rightarrow> (string \<times> date) list \<Rightarrow> exn + (string \<times> date) list" where
  "upcoming_loop today [] upcoming_birthdays = Inr upcoming_birthdays"
| "upcoming_loop today (r # rs) upcoming_birthdays =
     (case days_to_birthday today r of
        Inl e \<Rightarrow> Inl e
      | Inr None \<Rightarrow> upcoming_loop today rs upcoming_birthdays
      | Inr (Some days) \<Rightarrow>
          if 0 \<le> days \<and> days \<le> 7
          then upcoming_loop today rs
                 (upcoming_birthdays @ (case birthday r of Some b \<Rightarrow> [(name r, b)] | None \<Rightarrow> []))
          else upcoming_loop today rs upcoming_birthdays)"

definition get_upcoming_birthdays :: "date \<Rightarrow> AddressBook \<Rightarrow> exn + (string \<times> date) list" where
  "get_upcoming_birthdays today book = upcoming_loop today (map snd book) []"

definition AddressBook_str :: "(date \<Rightarrow> string) \<Rightarrow> AddressBook \<Rightarrow> string" where
  "AddressBook_str strftime book =
     (if book = [] then ''Address book is empty.''
      else join ''\<newline>'' (map (\<lambda>(k, r). Record_str strftime r) book))"

section \<open>Command operations\<close>

text \<open>
  The decorator \<open>input_error\<close> turns a function that may raise into one that returns a
  string: an exception of one of the three classes becomes \<open>Error:\<close> and its text.
  Every command operation is its undecorated body, named here with the suffix \<open>_body\<close>,
  under the decorator. A command receives the dictionary by reference, so the body
  returns the dictionary as the call leaves it, also when it raises.

  \<open>name, phone, *_ = args\<close> raises a \<open>ValueError\<close> when the list is too short.
  A record found by \<open>book.find\<close> is the object in the dictionary: what a method does
  to it shows in the slot it was found in (\<open>mutated\<close>).
\<close>

definition input_error ::
  "('a \<Rightarrow> AddressBook \<Rightarrow> (string, AddressBook) outcome) \<Rightarrow> 'a \<Rightarrow> AddressBook \<Rightarrow> string \<times> AddressBook" where
  "input_error func args book = (case func args book of
      (Inl e, book1) \<Rightarrow> (''Error: '' @ exn_str e, book1)
    | (Inr s, book1) \<Rightarrow> (s, book1))"

definition not_enough_values :: "nat \<Rightarrow> nat \<Rightarrow> exn" where
  "not_enough_values expected got =
     ValueError (''not enough values to unpack (expected at least '' @ str_nat expected @
                 '', got '' @ str_nat got @ '')'')"

definition mutated :: "string \<Rightarrow> Record \<Rightarrow> AddressBook \<Rightarrow> AddressBook" where
  "mutated key r book = AList.update key r book"

definition add_contact_body :: "string list \<Rightarrow> AddressBook \<Rightarrow> (string, AddressBook) outcome" where
  "add_contact_body args book = (case args of
      n # phone # rest \<Rightarrow>
        (case (case book_find n book of
                 Some record \<Rightarrow> Inr (record, book, ''Contact updated.'')
               | None \<Rightarrow>
                   (case Record_init n of
                      Inl e \<Rightarrow> Inl e
                    | Inr record \<Rightarrow> Inr (record, add_record record book, ''Contact added.''))) of
           Inl e \<Rightarrow> (Inl e, book)
         | Inr (record, book1, message) \<Rightarrow>
             if phone \<noteq> [] then
               (case add_phone phone record of
                  (Inl e, record1) \<Rightarrow> (Inl e, mutated n record1 book1)
                | (Inr u, record1) \<Rightarrow> (Inr message, mutated n record1 book1))
             else (Inr message, book1))
    | _ \<Rightarrow> (Inl (not_enough_values 2 (length args)), book))"

definition add_contact :: "string list \<Rightarrow> AddressBook \<Rightarrow> string \<times> AddressBook" where
  "add_contact = input_error add_contact_body"

definition change_phone_body :: "string list \<Rightarrow> AddressBook \<Rightarrow> (string, AddressBook) outcome" where
  "change_phone_body args book = (case args of
      n # old_phone # new_phone # rest \<Rightarrow>
        (case book_find n book of
           None \<Rightarrow> (Inl (ValueError ''Contact not found.''), book)
         | Some record \<Rightarrow>
             (case edit_phone old_phone new_phone record of
                (Inl e, record1) \<Rightarrow> (Inl e, mutated n record1 book)
              | (Inr u, record1) \<Rightarrow> (Inr ''Phone number updated.'', mutated n record1 book)))
    | _ \<Rightarrow> (Inl (not_enough_values 3 (length args)), book))"

definition change_phone :: "string list \<Rightarrow> AddressBook \<Rightarrow> string \<times> AddressBook" where
  "change_phone = input_error change_phone_body"

definition show_phone_body :: "string list \<Rightarrow> AddressBook \<Rightarrow> (string, AddressBook) outcome" where
  "show_phone_body args book = (case args of
      n # rest \<Rightarrow>
        (case book_find n book of
           None \<Rightarrow> (Inl (ValueError ''Contact not found.''), book)
         | Some record \<Rightarrow> (Inr (name record @ '': '' @ join '', '' (phones record)), book))
    | [] \<Rightarrow> (Inl (not_enough_values 1 (length args)), book))"

definition show_phone :: "string list \<Rightarrow> AddressBook \<Rightarrow> string \<times> AddressBook" where
  "show_phone = input_error show_phone_body"

definition show_all_contacts_body :: "(date \<Rightarrow> string) \<Rightarrow> unit \<Rightarrow> AddressBook \<Rightarrow> (string, AddressBook) outcome" where
  "show_all_contacts_body strftime u book = (Inr (AddressBook_str strftime book), book)"

definition show_all_contacts :: "(date \<Rightarrow> string) \<Rightarrow> AddressBook \<Rightarrow> string \<times> AddressBook" where
  "show_all_contacts strftime = input_error (show_all_contacts_body strftime) ()"

definition add_birthday_command_body ::
  "string list \<Rightarrow> AddressBook \<Rightarrow> (string, AddressBook) outcome" where
  "add_birthday_command_body args book = (case args of
      n # b # rest \<Rightarrow>
        (case book_find n book of
           None \<Rightarrow> (Inl (ValueError ''Contact not found.''), book)
         | Some record \<Rightarrow>
             (case add_birthday b record of
                (Inl e, record1) \<Rightarrow> (Inl e, mutated n record1 book)
              | (Inr u, record1) \<Rightarrow> (Inr ''Birthday added.'', mutated n record1 book)))
    | _ \<Rightarrow> (Inl (not_enough_values 2 (length args)), book))"

definition add_birthday_command :: "string list \<Rightarrow> AddressBook \<Rightarrow> string \<times> AddressBook" where
  "add_birthday_command = input_error add_birthday_command_body"

definition show_birthday_body ::
  "(date \<Rightarrow> string) \<Rightarrow> string list \<Rightarrow> AddressBook \<Rightarrow> (string, AddressBook) outcome" where
  "show_birthday_body strftime args book = (case args of
      n # rest \<Rightarrow>
        (case book_find n book of
           None \<Rightarrow> (Inl (ValueError ''Birthday not found.''), book)
         | Some record \<Rightarrow>
             (case birthday record of
                None \<Rightarrow> (Inl (ValueError ''Birthday not found.''), book)
              | Some b \<Rightarrow> (Inr (name record @ '': '' @ strftime b), book)))
    | [] \<Rightarrow> (Inl (not_enough_values 1 (length args)), book))"

definition show_birthday ::
  "(date \<Rightarrow> string) \<Rightarrow> string list \<Rightarrow> AddressBook \<Rightarrow> string \<times> AddressBook" where
  "show_birthday strftime = input_error (show_birthday_body strftime)"

definition birthdays_body ::
  "(date \<Rightarrow> string) \<Rightarrow> date \<Rightarrow> string list \<Rightarrow> AddressBook \<Rightarrow> (string, AddressBook) outcome" where
  "birthdays_body strftime today args book = (case get_upcoming_birthdays today book of
      Inl e \<Rightarrow> (Inl e, book)
    | Inr upcoming_birthdays \<Rightarrow>
        (let result = map (\<lambda>(n, b). n @ '': '' @ strftime b) upcoming_birthdays
         in (Inr (if result \<noteq> [] then join ''\<newline>'' result else ''No upcoming birthdays.''), book)))"

definition birthdays ::
  "(date \<Rightarrow> string) \<Rightarrow> date \<Rightarrow> string list \<Rightarrow> AddressBook \<Rightarrow> string \<times> AddressBook" where
  "birthdays strftime today = input_error (birthdays_body strftime today)"

section \<open>How a date may be written\<close>

text \<open>
  The words of the specification about birthdays, for comparison with the parser. A date
  is valid when \<open>datetime.date\<close> has it. \<open>dd_mm_yyyy\<close> writes a date in the format
  DD.MM.YYYY with the digits 0 to 9: two digits, a dot, two digits, a dot, four digits;
  \<open>matches_DD_MM_YYYY\<close> says that a string has this shape.

  \<open>unicode_decimal\<close> is what is used of the table of decimal digit values: a value is
  below 10, and on the code points 0 to 255 the table is \<open>latin1_decimal\<close>. Both hold
  of every version of the Unicode database.

  \<open>written\<close> says that a string is a spelling of a date that the parser is shown to
  accept: day, dot, month, dot, year. The month is written with the digits 0 to 9, with two
  digits or, below 10, also with one. The day is written with two of the digits 0 to 9, or,
  below 10, also with one digit or with a blank and one digit; in a day from 10 to 29 the
  second digit may be any character with that decimal digit value. The year is written with
  four characters with decimal digit values, of any script.
\<close>

definition unicode_decimal :: "(code_point \<Rightarrow> nat option) \<Rightarrow> bool" where
  "unicode_decimal decimal =
     ((\<forall>c v. decimal c = Some v \<longrightarrow> v < 10) \<and> (\<forall>c<256. decimal c = latin1_decimal c))"

definition valid_date :: "date \<Rightarrow> bool" where
  "valid_date dt =
     (1 \<le> year dt \<and> year dt \<le> 9999 \<and> 1 \<le> month dt \<and> month dt \<le> 12 \<and>
      1 \<le> day dt \<and> day dt \<le> days_in_month (year dt) (month dt))"

definition ascii_digit :: "nat \<Rightarrow> code_point" where
  "ascii_digit k = py_ord CHR ''0'' + k"

definition two_digits :: "nat \<Rightarrow> unicode" where
  "two_digits n = [ascii_digit (n div 10), ascii_digit (n mod 10)]"

definition four_digits :: "nat \<Rightarrow> unicode" where
  "four_digits n =
     [ascii_digit (n div 1000), ascii_digit (n div 100 mod 10), ascii_digit (n div 10 mod 10),
      ascii_digit (n mod 10)]"

definition dd_mm_yyyy :: "date \<Rightarrow> unicode" where
  "dd_mm_yyyy dt =
     two_digits (day dt) @ [py_ord CHR ''.''] @ two_digits (month dt) @ [py_ord CHR ''.''] @
     four_digits (year dt)"

definition matches_DD_MM_YYYY :: "unicode \<Rightarrow> bool" where
  "matches_DD_MM_YYYY s = (case s of
      [d1, d2, p1, m1, m2, p2, y1, y2, y3, y4] \<Rightarrow>
        char_range CHR ''0'' CHR ''9'' d1 \<and> char_range CHR ''0'' CHR ''9'' d2 \<and>
        p1 = py_ord CHR ''.'' \<and>
        char_range CHR ''0'' CHR ''9'' m1 \<and> char_range CHR ''0'' CHR ''9'' m2 \<and>
        p2 = py_ord CHR ''.'' \<and>
        char_range CHR ''0'' CHR ''9'' y1 \<and> char_range CHR ''0'' CHR ''9'' y2 \<and>
        char_range CHR ''0'' CHR ''9'' y3 \<and> char_range CHR ''0'' CHR ''9'' y4
    | _ \<Rightarrow> False)"

definition writes_day :: "(code_point \<Rightarrow> nat option) \<Rightarrow> unicode \<Rightarrow> nat \<Rightarrow> bool" where
  "writes_day decimal D d =
     (D = two_digits d \<or>
      (d < 10 \<and> (D = [ascii_digit d] \<or> D = [py_ord CHR '' '', ascii_digit d])) \<or>
      (10 \<le> d \<and> d \<le> 29 \<and>
       (case D of [a, b] \<Rightarrow> a = ascii_digit (d div 10) \<and> decimal b = Some (d mod 10)
        | _ \<Rightarrow> False)))"

definition writes_month :: "unicode \<Rightarrow> nat \<Rightarrow> bool" where
  "writes_month M m = (M = two_digits m \<or> (m < 10 \<and> M = [ascii_digit m]))"

definition writes_year :: "(code_point \<Rightarrow> nat option) \<Rightarrow> unicode \<Rightarrow> nat \<Rightarrow> bool" where
  "writes_year decimal Y y = (case Y of
      [a, b, c, e] \<Rightarrow>
        decimal a = Some (y div 1000) \<and> decimal b = Some (y div 100 mod 10) \<and>
        decimal c = Some (y div 10 mod 10) \<and> decimal e = Some (y mod 10)
    | _ \<Rightarrow> False)"

definition written :: "(code_point \<Rightarrow> nat option) \<Rightarrow> unicode \<Rightarrow> date \<Rightarrow> bool" where
  "written decimal s dt =
     (\<exists>D M Y. s = D @ [py_ord CHR ''.''] @ M @ [py_ord CHR ''.''] @ Y \<and>
        writes_day decimal D (day dt) \<and> writes_month M (month dt) \<and>
        writes_year decimal Y (year dt))"

text \<open>
  A part of the table for examples: the digits 0 to 9, and the Arabic-Indic digits, which
  are the code points 1632 to 1641.
\<close>

definition arabic_decimal :: "code_point \<Rightarrow> nat option" where
  "arabic_decimal c =
     (if char_range CHR ''0'' CHR ''9'' c then Some (c - py_ord CHR ''0'')
      else if 1632 \<le> c \<and> c \<le> 1641 then Some (c - 1632) else None)"

section \<open>Phone lists with duplicates\<close>

lemma find_phone_in_first:
  "p \<notin> set xs \<Longrightarrow> find_phone_in p (xs @ p # ys) = Some p"
  by (induction xs) auto

lemma remove1_first:
  "p \<notin> set xs \<Longrightarrow> remove1 p (xs @ p # ys) = xs @ ys"
  by (induction xs) auto

lemma remove_phone_first:
  assumes "phones r = xs @ p # ys" and "p \<notin> set xs"
  shows "remove_phone p r = (Inr (), r\<lparr>phones := xs @ ys\<rparr>)"
  using assms by (simp add: remove_phone_def find_phone_def find_phone_in_first remove1_first)

text \<open>
  C10. Let the first occurrence of \<open>p\<close> in the phone list be after the phones \<open>xs\<close>
  and before the phones \<open>ys\<close> (every list that contains \<open>p\<close> splits so, in one
  way, and \<open>ys\<close> holds the later duplicates of \<open>p\<close>). Then \<open>remove_phone p\<close>
  returns and leaves \<open>xs\<close> followed by \<open>ys\<close>: the first occurrence is gone and
  every later one stays. And \<open>edit_phone p new\<close> with a \<open>new\<close> that passes the
  validation returns and leaves \<open>xs\<close>, \<open>ys\<close> and then \<open>new\<close>: the new number
  is appended at the end, not put where \<open>p\<close> was.
\<close>

theorem duplicate_phones:
  assumes "phones r = xs @ p # ys" and "p \<notin> set xs"
  shows "remove_phone p r = (Inr (), r\<lparr>phones := xs @ ys\<rparr>) \<and>
         (validate new \<longrightarrow>
            edit_phone p new r = (Inr (), r\<lparr>phones := xs @ ys @ [new]\<rparr>))"
proof (intro conjI impI)
  show rm: "remove_phone p r = (Inr (), r\<lparr>phones := xs @ ys\<rparr>)"
    using assms by (rule remove_phone_first)
  assume "validate new"
  then have "add_phone new (r\<lparr>phones := xs @ ys\<rparr>) = (Inr (), r\<lparr>phones := xs @ ys @ [new]\<rparr>)"
    by (simp add: add_phone_def Phone_init_def)
  moreover have "find_phone p r = Some p"
    using assms by (simp add: find_phone_def find_phone_in_first)
  ultimately show "edit_phone p new r = (Inr (), r\<lparr>phones := xs @ ys @ [new]\<rparr>)"
    using rm by (simp add: edit_phone_def)
qed

theorem duplicate_phones_witness:
  "remove_phone ''5550000002''
     \<lparr>name = ''Ann'', phones = [''5550000001'', ''5550000002'', ''5550000003'', ''5550000002''],
      birthday = None\<rparr>
   = (Inr (), \<lparr>name = ''Ann'', phones = [''5550000001'', ''5550000003'', ''5550000002''],
              birthday = None\<rparr>) \<and>
   edit_phone ''5550000002'' ''5550000004''
     \<lparr>name = ''Ann'', phones = [''5550000001'', ''5550000002'', ''5550000003'', ''5550000002''],
      birthday = None\<rparr>
   = (Inr (), \<lparr>name = ''Ann'',
              phones = [''5550000001'', ''5550000003'', ''5550000002'', ''5550000004''],
              birthday = None\<rparr>)"
proof -
  have v: "validate ''5550000004''"
    by (simp add: validate_def is_digit_def char_class_def eval_nat_numeral)
  show ?thesis
    using v duplicate_phones
      [of "\<lparr>name = ''Ann'', phones = [''5550000001'', ''5550000002'', ''5550000003'', ''5550000002''],
            birthday = None\<rparr>"
          "[''5550000001'']" "''5550000002''" "[''5550000003'', ''5550000002'']" "''5550000004''"]
    by simp
qed

section \<open>Editing a phone with an invalid new number\<close>

lemma edit_phone_invalid_new:
  assumes "phones r = xs @ p # ys" and "p \<notin> set xs" and "\<not> validate new"
  shows "edit_phone p new r =
           (Inl (ValueError ''Invalid phone number format. It must be 10 digits.''),
            r\<lparr>phones := xs @ ys\<rparr>)"
proof -
  have "find_phone p r = Some p"
    using assms by (simp add: find_phone_def find_phone_in_first)
  moreover have "remove_phone p r = (Inr (), r\<lparr>phones := xs @ ys\<rparr>)"
    using assms(1,2) by (rule remove_phone_first)
  ultimately show ?thesis
    using assms(3) by (simp add: edit_phone_def add_phone_def Phone_init_def)
qed

text \<open>
  C1. \<open>edit_phone\<close> removes the old number before it validates the new one. On the
  record of Alice whose only phone is 1234567890, editing it to 12345 raises the
  validation error and leaves the phone list empty: the old number is gone.
\<close>

theorem edit_phone_invalid_new_loses_old:
  "edit_phone ''1234567890'' ''12345''
     \<lparr>name = ''Alice'', phones = [''1234567890''], birthday = None\<rparr>
   = (Inl (ValueError ''Invalid phone number format. It must be 10 digits.''),
      \<lparr>name = ''Alice'', phones = [], birthday = None\<rparr>)"
proof -
  have "\<not> validate ''12345''"
    by (simp add: validate_def is_digit_def char_class_def eval_nat_numeral)
  then show ?thesis
    using edit_phone_invalid_new
      [of "\<lparr>name = ''Alice'', phones = [''1234567890''], birthday = None\<rparr>" "[]"
          "''1234567890''" "[]" "''12345''"]
    by simp
qed

section \<open>Phone validation\<close>

lemma match_digits_iff:
  "match_digits n v = Some rest \<longleftrightarrow>
     (\<exists>d. v = d @ rest \<and> length d = n \<and> (\<forall>c\<in>set d. is_digit c))"
proof (induction n arbitrary: v)
  case 0
  then show ?case by auto
next
  case (Suc n)
  show ?case
  proof (cases v)
    case Nil
    then show ?thesis by auto
  next
    case (Cons c s)
    show ?thesis
    proof
      assume "match_digits (Suc n) v = Some rest"
      with Cons Suc.IH [of s] obtain d
        where "is_digit c" "s = d @ rest" "length d = n" "\<forall>c\<in>set d. is_digit c"
        by (auto split: if_splits)
      then have "v = (c # d) @ rest \<and> length (c # d) = Suc n \<and> (\<forall>x\<in>set (c # d). is_digit x)"
        using Cons by simp
      then show "\<exists>d. v = d @ rest \<and> length d = Suc n \<and> (\<forall>c\<in>set d. is_digit c)"
        by blast
    next
      assume "\<exists>d. v = d @ rest \<and> length d = Suc n \<and> (\<forall>c\<in>set d. is_digit c)"
      then obtain d where d: "v = d @ rest" "length d = Suc n" "\<forall>c\<in>set d. is_digit c"
        by blast
      then obtain c' d' where "d = c' # d'" by (cases d) auto
      with d Cons Suc.IH [of s] show "match_digits (Suc n) v = Some rest"
        by auto
    qed
  qed
qed

text \<open>
  What the validation accepts: ten digits, and ten digits followed by one newline.
\<close>

lemma validate_iff:
  "validate v \<longleftrightarrow>
     (\<exists>d. length d = 10 \<and> (\<forall>c\<in>set d. is_digit c) \<and> (v = d \<or> v = d @ ''\<newline>''))"
proof
  assume "validate v"
  then obtain rest where r: "match_digits 10 v = Some rest" "rest = [] \<or> rest = ''\<newline>''"
    by (auto simp: validate_def split: option.splits)
  then show "\<exists>d. length d = 10 \<and> (\<forall>c\<in>set d. is_digit c) \<and> (v = d \<or> v = d @ ''\<newline>'')"
    unfolding match_digits_iff by auto
next
  assume "\<exists>d. length d = 10 \<and> (\<forall>c\<in>set d. is_digit c) \<and> (v = d \<or> v = d @ ''\<newline>'')"
  then obtain d where d: "length d = 10" "\<forall>c\<in>set d. is_digit c" "v = d \<or> v = d @ ''\<newline>''"
    by blast
  then have "match_digits 10 v = Some [] \<or> match_digits 10 v = Some ''\<newline>''"
    unfolding match_digits_iff by auto
  then show "validate v"
    by (auto simp: validate_def)
qed

lemma Phone_init_ten_digits:
  "length v = 10 \<Longrightarrow> \<forall>c\<in>set v. is_digit c \<Longrightarrow> Phone_init v = Inr v"
  unfolding Phone_init_def validate_iff by auto

text \<open>
  C2. The string of the ten digits 1234567890 followed by a newline has eleven
  characters, one of them not a digit, and \<open>Phone\<close> accepts it and stores it.
\<close>

theorem Phone_init_trailing_newline:
  "Phone_init ''1234567890\<newline>'' = Inr ''1234567890\<newline>'' \<and>
   length ''1234567890\<newline>'' = 11"
  by (simp add: Phone_init_def validate_def is_digit_def char_class_def eval_nat_numeral)

section \<open>Deleting a contact\<close>

lemma delete_filter: "AList.delete n book = filter (\<lambda>(k, r). k \<noteq> n) book"
  by (induction book) (auto simp: AList.delete_eq)

text \<open>
  C8. \<open>delete n\<close> raises the \<open>KeyError\<close> exactly when \<open>n\<close> is not a key, and then
  leaves the book as it is. When \<open>n\<close> is a key it returns, the book is the items with
  another key, in their order, \<open>n\<close> is no longer found and every other name finds what
  it found before.
\<close>

theorem delete_contact:
  "(fst (delete n book) = Inl (KeyError ''Contact not found.'') \<longleftrightarrow> n \<notin> fst ` set book) \<and>
   (n \<notin> fst ` set book \<longrightarrow> snd (delete n book) = book) \<and>
   (n \<in> fst ` set book \<longrightarrow>
      fst (delete n book) = Inr () \<and>
      snd (delete n book) = filter (\<lambda>(k, r). k \<noteq> n) book \<and>
      book_find n (snd (delete n book)) = None \<and>
      (\<forall>k. k \<noteq> n \<longrightarrow> book_find k (snd (delete n book)) = book_find k book))"
proof (intro conjI impI allI)
  show "fst (delete n book) = Inl (KeyError ''Contact not found.'') \<longleftrightarrow> n \<notin> fst ` set book"
    by (simp add: delete_def)
next
  assume "n \<notin> fst ` set book"
  then show "snd (delete n book) = book"
    by (simp add: delete_def)
next
  assume n: "n \<in> fst ` set book"
  then have d: "delete n book = (Inr (), AList.delete n book)"
    by (simp add: delete_def)
  show "fst (delete n book) = Inr ()"
    by (simp add: d)
  show "snd (delete n book) = filter (\<lambda>(k, r). k \<noteq> n) book"
    by (simp add: d delete_filter)
  show "book_find n (snd (delete n book)) = None"
    by (simp add: d book_find_def AList.delete_conv')
  fix k
  assume "k \<noteq> n"
  then show "book_find k (snd (delete n book)) = book_find k book"
    by (simp add: d book_find_def AList.delete_conv')
qed

theorem delete_contact_witness:
  "delete ''Bob''
     [(''Ann'', \<lparr>name = ''Ann'', phones = [], birthday = None\<rparr>),
      (''Bob'', \<lparr>name = ''Bob'', phones = [''5550000001''], birthday = None\<rparr>),
      (''Cy'', \<lparr>name = ''Cy'', phones = [], birthday = None\<rparr>)]
   = (Inr (), [(''Ann'', \<lparr>name = ''Ann'', phones = [], birthday = None\<rparr>),
               (''Cy'', \<lparr>name = ''Cy'', phones = [], birthday = None\<rparr>)]) \<and>
   delete ''Bob'' [(''Ann'', \<lparr>name = ''Ann'', phones = [], birthday = None\<rparr>)]
   = (Inl (KeyError ''Contact not found.''),
      [(''Ann'', \<lparr>name = ''Ann'', phones = [], birthday = None\<rparr>)])"
  using delete_contact
      [of "''Bob''" "[(''Ann'', \<lparr>name = ''Ann'', phones = [], birthday = None\<rparr>),
      (''Bob'', \<lparr>name = ''Bob'', phones = [''5550000001''], birthday = None\<rparr>),
      (''Cy'', \<lparr>name = ''Cy'', phones = [], birthday = None\<rparr>)]"]
    delete_contact [of "''Bob''" "[(''Ann'', \<lparr>name = ''Ann'', phones = [], birthday = None\<rparr>)]"]
  by (simp add: prod_eq_iff)

section \<open>The add and phone commands\<close>

lemma validate_nonempty: "validate phone \<Longrightarrow> phone \<noteq> []"
  by (auto simp: validate_def eval_nat_numeral)

lemma update_absent: "map_of book n = None \<Longrightarrow> AList.update n v book = book @ [(n, v)]"
  by (induction book) (auto split: if_splits)

lemma update_appended:
  "map_of book n = None \<Longrightarrow> AList.update n v (book @ [(n, w)]) = book @ [(n, v)]"
  by (induction book) (auto split: if_splits)

text \<open>
  C6. Let \<open>phone\<close> pass the validation, and let \<open>n\<close> be a name that is in the book or
  is not empty. Then \<open>add\<close> returns \<open>Contact added.\<close> when \<open>n\<close> is not in the book
  and \<open>Contact updated.\<close> when it is. The record \<open>r0\<close> is the one found, or the new
  one with no phones; afterwards the book holds under \<open>n\<close> that record with \<open>phone\<close>
  appended to its phones (a new record is appended to the book), and the \<open>phone\<close>
  command for \<open>n\<close> returns the name of the record, a colon and the phones joined by a
  comma and a blank. The scenario of the claim is the witness.
\<close>

theorem add_contact_then_show_phone:
  assumes "validate phone" and "book_find n book = None \<longrightarrow> n \<noteq> []"
  shows "let r0 = (case book_find n book of
                     None \<Rightarrow> \<lparr>name = n, phones = [], birthday = None\<rparr>
                   | Some r \<Rightarrow> r);
             book1 = AList.update n (r0\<lparr>phones := phones r0 @ [phone]\<rparr>) book
         in add_contact (n # phone # rest) book =
              (if book_find n book = None then ''Contact added.'' else ''Contact updated.'', book1) \<and>
            (book_find n book = None \<longrightarrow>
               book1 = book @ [(n, \<lparr>name = n, phones = [phone], birthday = None\<rparr>)]) \<and>
            show_phone (n # rest') book1 =
              (name r0 @ '': '' @ join '', '' (phones r0 @ [phone]), book1)"
proof (cases "book_find n book")
  case None
  let ?r1 = "\<lparr>name = n, phones = [phone], birthday = None\<rparr>"
  from None assms have "n \<noteq> []" by simp
  then have init: "Record_init n = Inr \<lparr>name = n, phones = [], birthday = None\<rparr>"
    by (simp add: Record_init_def Name_init_def)
  have absent: "map_of book n = None"
    using None by (simp add: book_find_def)
  have upd: "AList.update n ?r1 book = book @ [(n, ?r1)]"
    using absent by (rule update_absent)
  have added: "add_contact (n # phone # rest) book = (''Contact added.'', book @ [(n, ?r1)])"
    using init absent assms(1) validate_nonempty [OF assms(1)]
    by (simp add: add_contact_def input_error_def add_contact_body_def add_record_def
        add_phone_def Phone_init_def mutated_def book_find_def update_absent update_appended)
  have found: "book_find n (book @ [(n, ?r1)]) = Some ?r1"
    using absent by (simp add: book_find_def map_add_def)
  have shown: "show_phone (n # rest') (book @ [(n, ?r1)]) =
                 (n @ '': '' @ join '', '' [phone], book @ [(n, ?r1)])"
    using found by (simp add: show_phone_def input_error_def show_phone_body_def)
  show ?thesis
    using None added shown upd by (simp add: Let_def)
next
  case (Some r)
  let ?r1 = "r\<lparr>phones := phones r @ [phone]\<rparr>"
  have added: "add_contact (n # phone # rest) book = (''Contact updated.'', AList.update n ?r1 book)"
    using Some assms(1) validate_nonempty [OF assms(1)]
    by (simp add: add_contact_def input_error_def add_contact_body_def
        add_phone_def Phone_init_def mutated_def)
  have found: "book_find n (AList.update n ?r1 book) = Some ?r1"
    by (simp add: book_find_def AList.update_conv')
  have shown: "show_phone (n # rest') (AList.update n ?r1 book) =
                 (name r @ '': '' @ join '', '' (phones r @ [phone]), AList.update n ?r1 book)"
    using found by (simp add: show_phone_def input_error_def show_phone_body_def)
  show ?thesis
    using Some added shown by (simp add: Let_def)
qed

theorem add_contact_then_show_phone_witness:
  "add_contact [''Alice'', ''1234567890''] [] =
     (''Contact added.'',
      [(''Alice'', \<lparr>name = ''Alice'', phones = [''1234567890''], birthday = None\<rparr>)]) \<and>
   add_contact [''Alice'', ''0987654321'']
     [(''Alice'', \<lparr>name = ''Alice'', phones = [''1234567890''], birthday = None\<rparr>)] =
     (''Contact updated.'',
      [(''Alice'', \<lparr>name = ''Alice'', phones = [''1234567890'', ''0987654321''], birthday = None\<rparr>)]) \<and>
   show_phone [''Alice'']
     [(''Alice'', \<lparr>name = ''Alice'', phones = [''1234567890'', ''0987654321''], birthday = None\<rparr>)] =
     (''Alice: 1234567890, 0987654321'',
      [(''Alice'', \<lparr>name = ''Alice'', phones = [''1234567890'', ''0987654321''], birthday = None\<rparr>)])"
proof -
  have v1: "validate ''1234567890''" and v2: "validate ''0987654321''"
    by (simp_all add: validate_def is_digit_def char_class_def eval_nat_numeral)
  have n1: "book_find ''Alice'' [] = None \<longrightarrow> ''Alice'' \<noteq> []"
    by simp
  have n2: "book_find ''Alice''
              [(''Alice'', \<lparr>name = ''Alice'', phones = [''1234567890''], birthday = None\<rparr>)] = None
            \<longrightarrow> ''Alice'' \<noteq> []"
    by simp
  show ?thesis
    using add_contact_then_show_phone [OF v1 n1, of "[]" "[]"]
      add_contact_then_show_phone [OF v2 n2, of "[]" "[]"]
    by (simp add: book_find_def Let_def)
qed

text \<open>
  C9, as amended. Let \<open>n\<close> be a name, so not empty, that is not in the book, and
  \<open>phone\<close> a string that is not empty and fails the validation. Then \<open>add\<close> returns
  the error string of the validation, and the book has a new last item: under \<open>n\<close>, a
  record of that name with no phone and no birthday.
\<close>

theorem add_contact_invalid_phone:
  assumes "book_find n book = None" and "n \<noteq> []" and "phone \<noteq> []" and "\<not> validate phone"
  shows "add_contact (n # phone # rest) book =
           (''Error: Invalid phone number format. It must be 10 digits.'',
            book @ [(n, \<lparr>name = n, phones = [], birthday = None\<rparr>)])"
proof -
  have "Record_init n = Inr \<lparr>name = n, phones = [], birthday = None\<rparr>"
    using assms(2) by (simp add: Record_init_def Name_init_def)
  then show ?thesis
    using assms
    by (simp add: add_contact_def input_error_def add_contact_body_def add_record_def
        add_phone_def Phone_init_def mutated_def book_find_def update_absent update_appended
        exn_str_def)
qed

theorem add_contact_invalid_phone_witness:
  "add_contact [''Bob'', ''12345'']
     [(''Ann'', \<lparr>name = ''Ann'', phones = [], birthday = None\<rparr>)] =
     (''Error: Invalid phone number format. It must be 10 digits.'',
      [(''Ann'', \<lparr>name = ''Ann'', phones = [], birthday = None\<rparr>),
       (''Bob'', \<lparr>name = ''Bob'', phones = [], birthday = None\<rparr>)])"
proof -
  have "\<not> validate ''12345''"
    by (simp add: validate_def is_digit_def char_class_def eval_nat_numeral)
  moreover have "book_find ''Bob'' [(''Ann'', \<lparr>name = ''Ann'', phones = [], birthday = None\<rparr>)] = None"
    by (simp add: book_find_def)
  ultimately show ?thesis
    using add_contact_invalid_phone
      [of "''Bob''" "[(''Ann'', \<lparr>name = ''Ann'', phones = [], birthday = None\<rparr>)]" "''12345''" "[]"]
    by simp
qed

text \<open>
  The claim C9 as it is written fails at the empty phone string. The name Bob is not in
  the empty book and the empty string is not a valid phone, yet \<open>add\<close> returns
  \<open>Contact added.\<close>, not an error: no phone is added when the argument is empty.
\<close>

theorem add_contact_empty_phone_counterexample:
  "book_find ''Bob'' [] = None \<and> \<not> validate [] \<and>
   add_contact [''Bob'', []] [] =
     (''Contact added.'', [(''Bob'', \<lparr>name = ''Bob'', phones = [], birthday = None\<rparr>)])"
  by (simp add: add_contact_def input_error_def add_contact_body_def add_record_def
      Record_init_def Name_init_def book_find_def validate_def eval_nat_numeral)

text \<open>
  A name is never empty: for the empty name, when no record is stored under it, \<open>add\<close>
  returns the error of \<open>Name\<close> and leaves the book as it is.
\<close>

lemma add_contact_empty_name:
  "book_find [] book = None \<Longrightarrow>
     add_contact ([] # phone # rest) book = (''Error: Name is required.'', book)"
  by (simp add: add_contact_def input_error_def add_contact_body_def Record_init_def
      Name_init_def exn_str_def)

text \<open>
  With the empty string as phone nothing is validated: for a name that is not empty and not
  in the book, \<open>add\<close> returns \<open>Contact added.\<close> and the record, with no phone,
  is appended to the book.
\<close>

lemma add_contact_empty_phone:
  "book_find n book = None \<Longrightarrow> n \<noteq> [] \<Longrightarrow>
     add_contact (n # [] # rest) book =
       (''Contact added.'', book @ [(n, \<lparr>name = n, phones = [], birthday = None\<rparr>)])"
  by (simp add: add_contact_def input_error_def add_contact_body_def add_record_def
      Record_init_def Name_init_def book_find_def update_absent)

section \<open>Errors of the command operations\<close>

text \<open>Everything the operations raise is a \<open>ValueError\<close>.\<close>

lemma add_phone_raises: "add_phone p r = (Inl e, r') \<Longrightarrow> \<exists>m. e = ValueError m"
  by (auto simp: add_phone_def Phone_init_def split: if_splits)

lemma remove_phone_raises: "remove_phone p r = (Inl e, r') \<Longrightarrow> \<exists>m. e = ValueError m"
  by (auto simp: remove_phone_def split: option.splits)

lemma edit_phone_raises: "edit_phone p q r = (Inl e, r') \<Longrightarrow> \<exists>m. e = ValueError m"
  by (auto simp: edit_phone_def split: option.splits prod.splits sum.splits
      dest: add_phone_raises remove_phone_raises)

lemma date_new_raises: "date_new y m d = Inl e \<Longrightarrow> \<exists>t. e = ValueError t"
  by (auto simp: date_new_def split: if_splits)

lemma strptime_raises: "strptime decimal s = Inl e \<Longrightarrow> \<exists>t. e = ValueError t"
  by (auto simp: strptime_def split: list.splits if_splits option.splits dest: date_new_raises)

lemma Birthday_unicode_raises:
  "Birthday_unicode decimal v = Inl e \<Longrightarrow> e = ValueError ''Invalid date format. Use DD.MM.YYYY''"
  by (auto simp: Birthday_unicode_def split: sum.splits exn.splits dest: strptime_raises)

lemma Birthday_init_raises:
  "Birthday_init v = Inl e \<Longrightarrow> e = ValueError ''Invalid date format. Use DD.MM.YYYY''"
  unfolding Birthday_init_def by (rule Birthday_unicode_raises)

lemma add_birthday_raises: "add_birthday v r = (Inl e, r') \<Longrightarrow> \<exists>m. e = ValueError m"
  by (auto simp: add_birthday_def split: sum.splits dest: Birthday_init_raises)

lemma days_to_birthday_raises: "days_to_birthday today r = Inl e \<Longrightarrow> \<exists>m. e = ValueError m"
  by (auto simp: days_to_birthday_def replace_year_def
      split: option.splits sum.splits if_splits dest: date_new_raises)

lemma upcoming_loop_raises: "upcoming_loop today rs acc = Inl e \<Longrightarrow> \<exists>m. e = ValueError m"
  by (induction today rs acc rule: upcoming_loop.induct)
     (auto split: sum.splits option.splits if_splits dest: days_to_birthday_raises)

lemma add_contact_body_raises:
  "add_contact_body args book = (Inl e, b) \<Longrightarrow> \<exists>m. e = ValueError m"
  by (auto simp: add_contact_body_def not_enough_values_def Record_init_def Name_init_def
      split: list.splits option.splits sum.splits prod.splits if_splits dest: add_phone_raises)

lemma change_phone_body_raises:
  "change_phone_body args book = (Inl e, b) \<Longrightarrow> \<exists>m. e = ValueError m"
  by (auto simp: change_phone_body_def not_enough_values_def
      split: list.splits option.splits sum.splits prod.splits dest: edit_phone_raises)

lemma show_phone_body_raises:
  "show_phone_body args book = (Inl e, b) \<Longrightarrow> \<exists>m. e = ValueError m"
  by (auto simp: show_phone_body_def not_enough_values_def split: list.splits option.splits)

lemma add_birthday_command_body_raises:
  "add_birthday_command_body args book = (Inl e, b) \<Longrightarrow> \<exists>m. e = ValueError m"
  by (auto simp: add_birthday_command_body_def not_enough_values_def
      split: list.splits option.splits sum.splits prod.splits dest: add_birthday_raises)

lemma show_birthday_body_raises:
  "show_birthday_body fmt args book = (Inl e, b) \<Longrightarrow> \<exists>m. e = ValueError m"
  by (auto simp: show_birthday_body_def not_enough_values_def split: list.splits option.splits)

lemma birthdays_body_raises:
  "birthdays_body fmt today args book = (Inl e, b) \<Longrightarrow> \<exists>m. e = ValueError m"
  by (auto simp: birthdays_body_def get_upcoming_birthdays_def Let_def
      split: sum.splits dest: upcoming_loop_raises)

lemma input_error_caught:
  assumes "func args book = (Inl e, b)" and "\<exists>m. e = ValueError m"
  shows "\<exists>m. e = ValueError m \<and> input_error func args book = (''Error: '' @ m, b)"
  using assms by (auto simp: input_error_def exn_str_def)

text \<open>
  C7. Whenever the body of a command operation raises an exception \<open>e\<close> and leaves the
  book \<open>b\<close>, the exception is a \<open>ValueError\<close> with some message \<open>m\<close>, and the
  operation returns the string \<open>Error:\<close> followed by \<open>m\<close>, with the book \<open>b\<close>:
  so for add, change, phone, add-birthday, show-birthday and birthdays, while the body
  of all never raises. In particular, change for a name that is not in the book returns
  \<open>Error: Contact not found.\<close> and leaves the book as it is.
\<close>

theorem command_errors_caught:
  "(\<forall>e b. add_contact_body args book = (Inl e, b) \<longrightarrow>
      (\<exists>m. e = ValueError m \<and> add_contact args book = (''Error: '' @ m, b))) \<and>
   (\<forall>e b. change_phone_body args book = (Inl e, b) \<longrightarrow>
      (\<exists>m. e = ValueError m \<and> change_phone args book = (''Error: '' @ m, b))) \<and>
   (\<forall>e b. show_phone_body args book = (Inl e, b) \<longrightarrow>
      (\<exists>m. e = ValueError m \<and> show_phone args book = (''Error: '' @ m, b))) \<and>
   (\<forall>e b. show_all_contacts_body strftime () book \<noteq> (Inl e, b)) \<and>
   (\<forall>e b. add_birthday_command_body args book = (Inl e, b) \<longrightarrow>
      (\<exists>m. e = ValueError m \<and> add_birthday_command args book = (''Error: '' @ m, b))) \<and>
   (\<forall>e b. show_birthday_body strftime args book = (Inl e, b) \<longrightarrow>
      (\<exists>m. e = ValueError m \<and> show_birthday strftime args book = (''Error: '' @ m, b))) \<and>
   (\<forall>e b. birthdays_body strftime today args book = (Inl e, b) \<longrightarrow>
      (\<exists>m. e = ValueError m \<and> birthdays strftime today args book = (''Error: '' @ m, b))) \<and>
   (book_find n book = None \<longrightarrow>
      change_phone (n # old_phone # new_phone # rest) book = (''Error: Contact not found.'', book))"
proof (intro conjI allI impI)
  fix e b
  show "add_contact_body args book = (Inl e, b) \<Longrightarrow>
        \<exists>m. e = ValueError m \<and> add_contact args book = (''Error: '' @ m, b)"
    unfolding add_contact_def by (rule input_error_caught) (auto dest: add_contact_body_raises)
  show "change_phone_body args book = (Inl e, b) \<Longrightarrow>
        \<exists>m. e = ValueError m \<and> change_phone args book = (''Error: '' @ m, b)"
    unfolding change_phone_def by (rule input_error_caught) (auto dest: change_phone_body_raises)
  show "show_phone_body args book = (Inl e, b) \<Longrightarrow>
        \<exists>m. e = ValueError m \<and> show_phone args book = (''Error: '' @ m, b)"
    unfolding show_phone_def by (rule input_error_caught) (auto dest: show_phone_body_raises)
  show "show_all_contacts_body strftime () book \<noteq> (Inl e, b)"
    by (simp add: show_all_contacts_body_def)
  show "add_birthday_command_body args book = (Inl e, b) \<Longrightarrow>
        \<exists>m. e = ValueError m \<and> add_birthday_command args book = (''Error: '' @ m, b)"
    unfolding add_birthday_command_def
    by (rule input_error_caught) (auto dest: add_birthday_command_body_raises)
  show "show_birthday_body strftime args book = (Inl e, b) \<Longrightarrow>
        \<exists>m. e = ValueError m \<and> show_birthday strftime args book = (''Error: '' @ m, b)"
    unfolding show_birthday_def by (rule input_error_caught) (auto dest: show_birthday_body_raises)
  show "birthdays_body strftime today args book = (Inl e, b) \<Longrightarrow>
        \<exists>m. e = ValueError m \<and> birthdays strftime today args book = (''Error: '' @ m, b)"
    unfolding birthdays_def by (rule input_error_caught) (auto dest: birthdays_body_raises)
next
  assume "book_find n book = None"
  then show "change_phone (n # old_phone # new_phone # rest) book =
               (''Error: Contact not found.'', book)"
    by (simp add: change_phone_def input_error_def change_phone_body_def exn_str_def)
qed

theorem command_errors_caught_witness:
  "change_phone_body [''Bob'', ''1111111111'', ''2222222222''] [] =
     (Inl (ValueError ''Contact not found.''), []) \<and>
   change_phone [''Bob'', ''1111111111'', ''2222222222''] [] = (''Error: Contact not found.'', []) \<and>
   change_phone [''Bob''] [] =
     (''Error: not enough values to unpack (expected at least 3, got 1)'', [])"
proof -
  have b: "change_phone_body [''Bob'', ''1111111111'', ''2222222222''] [] =
     (Inl (ValueError ''Contact not found.''), [])"
    by (simp add: change_phone_body_def book_find_def)
  have c: "change_phone_body [''Bob''] [] =
     (Inl (ValueError ''not enough values to unpack (expected at least 3, got 1)''), [])"
    by code_simp
  have "book_find ''Bob'' [] = None"
    by (simp add: book_find_def)
  then show ?thesis
    using b c
      command_errors_caught
        [where args = "[''Bob'', ''1111111111'', ''2222222222'']" and book = "[]"
           and n = "''Bob''" and old_phone = "''1111111111''" and new_phone = "''2222222222''"
           and rest = "[]"]
      command_errors_caught [where args = "[''Bob'']" and book = "[]"]
    by simp
qed

section \<open>Days to the birthday\<close>

text \<open>The step of \<open>days_before_year\<close> from a year to the next.\<close>

lemma div_step:
  fixes n k :: int
  assumes "0 < k"
  shows "n div k = (n - 1) div k + (if n mod k = 0 then 1 else 0)"
proof (cases "n mod k = 0")
  case True
  then have "n = k * (n div k)" by auto
  then have "n - 1 = k * (n div k - 1) + (k - 1)"
    by (simp add: algebra_simps)
  then have "(n - 1) div k = n div k - 1"
    using assms by (intro int_div_pos_eq [where r = "k - 1"]) auto
  then show ?thesis using True by simp
next
  case False
  have "0 \<le> n mod k" "n mod k < k" using assms by simp_all
  with False have r: "0 \<le> n mod k - 1" "n mod k - 1 < k" by simp_all
  have "n = k * (n div k) + n mod k" by simp
  then have "n - 1 = k * (n div k) + (n mod k - 1)" by simp
  then have "(n - 1) div k = n div k"
    using r by (intro int_div_pos_eq [where r = "n mod k - 1"]) auto
  then show ?thesis using False by simp
qed

lemma int_mod_zero: "int y mod int k = 0 \<longleftrightarrow> y mod k = 0"
  by (metis of_nat_mod of_nat_eq_0_iff)

lemma days_before_year_Suc:
  "days_before_year (Suc y) = days_before_year y + 365 + (if is_leap y then 1 else 0)"
proof -
  define i4 :: int where "i4 = (if y mod 4 = 0 then 1 else 0)"
  define i100 :: int where "i100 = (if y mod 100 = 0 then 1 else 0)"
  define i400 :: int where "i400 = (if y mod 400 = 0 then 1 else 0)"
  have m: "int y mod 4 = 0 \<longleftrightarrow> y mod 4 = 0" "int y mod 100 = 0 \<longleftrightarrow> y mod 100 = 0"
    "int y mod 400 = 0 \<longleftrightarrow> y mod 400 = 0"
    using int_mod_zero [of y 4] int_mod_zero [of y 100] int_mod_zero [of y 400]
    by simp_all
  have e4: "int y div 4 = (int y - 1) div 4 + i4"
    using div_step [of 4 "int y"] m by (simp add: i4_def)
  have e100: "int y div 100 = (int y - 1) div 100 + i100"
    using div_step [of 100 "int y"] m by (simp add: i100_def)
  have e400: "int y div 400 = (int y - 1) div 400 + i400"
    using div_step [of 400 "int y"] m by (simp add: i400_def)
  have "days_before_year (Suc y) = int y * 365 + int y div 4 - int y div 100 + int y div 400"
    by (simp add: days_before_year_def Let_def)
  also have "\<dots> = days_before_year y + 365 + (i4 - i100 + i400)"
    unfolding e4 e100 e400 days_before_year_def Let_def by (simp add: algebra_simps)
  also have "i4 - i100 + i400 = (if is_leap y then 1 else 0)"
  proof -
    have "y mod 400 = 0 \<Longrightarrow> y mod 100 = 0" and "y mod 100 = 0 \<Longrightarrow> y mod 4 = 0"
      using dvd_trans [of "100::nat" 400 y] dvd_trans [of "4::nat" 100 y]
      by (simp_all add: mod_eq_0_iff_dvd)
    then show ?thesis
      unfolding i4_def i100_def i400_def is_leap_def by (cases "y mod 4 = 0"; cases "y mod 100 = 0"; cases "y mod 400 = 0") simp_all
  qed
  finally show ?thesis by simp
qed


lemma days_before_year_mono: "y \<le> y' \<Longrightarrow> days_before_year y \<le> days_before_year y'"
proof (induction y')
  case 0
  then show ?case by simp
next
  case (Suc k)
  show ?case
  proof (cases "y = Suc k")
    case True
    then show ?thesis by simp
  next
    case False
    then have "days_before_year y \<le> days_before_year k" using Suc by simp
    then show ?thesis by (simp add: days_before_year_Suc)
  qed
qed

lemma days_before_year_next:
  assumes "y < y'"
  shows "days_before_year y + 365 + (if is_leap y then 1 else 0) \<le> days_before_year y'"
  using days_before_year_mono [of "Suc y" y'] assms by (simp add: days_before_year_Suc)

lemma months_upto: "[Suc 0..<13] = [1, 2, 3, 4, 5, 6, 7, 8, 9, 10, 11, 12]"
  by code_simp

lemma days_before_month_13:
  "days_before_month y 13 = 365 + (if is_leap y then 1 else 0)"
  by (simp add: days_before_month_def months_upto days_in_month_def)

lemma days_before_month_Suc:
  "1 \<le> m \<Longrightarrow> days_before_month y (Suc m) = days_before_month y m + int (days_in_month y m)"
  by (simp add: days_before_month_def)

lemma days_before_month_nonneg: "0 \<le> days_before_month y m"
  by (auto simp: days_before_month_def intro!: sum_list_nonneg)

lemma days_before_month_mono:
  "1 \<le> m \<Longrightarrow> m < m' \<Longrightarrow>
     days_before_month y m + int (days_in_month y m) \<le> days_before_month y m'"
proof (induction m')
  case 0
  then show ?case by simp
next
  case (Suc k)
  show ?case
  proof (cases "m = k")
    case True
    then show ?thesis using Suc.prems by (simp add: days_before_month_Suc)
  next
    case False
    then have "m < k" using Suc.prems by simp
    then have "days_before_month y m + int (days_in_month y m) \<le> days_before_month y k"
      using Suc by simp
    moreover have "days_before_month y (Suc k) = days_before_month y k + int (days_in_month y k)"
      using \<open>m < k\<close> Suc.prems by (simp add: days_before_month_Suc)
    ultimately show ?thesis by simp
  qed
qed

lemma day_of_year_bounds:
  assumes "valid_date a"
  shows "1 \<le> days_before_month (year a) (month a) + int (day a)"
    and "days_before_month (year a) (month a) + int (day a)
           \<le> 365 + (if is_leap (year a) then 1 else 0)"
proof -
  have m: "1 \<le> month a" "month a < 13" and d: "1 \<le> day a" "day a \<le> days_in_month (year a) (month a)"
    using assms by (simp_all add: valid_date_def)
  show "1 \<le> days_before_month (year a) (month a) + int (day a)"
    using d(1) days_before_month_nonneg [of "year a" "month a"] by simp
  have "days_before_month (year a) (month a) + int (days_in_month (year a) (month a))
          \<le> days_before_month (year a) 13"
    using m by (rule days_before_month_mono)
  then show "days_before_month (year a) (month a) + int (day a)
           \<le> 365 + (if is_leap (year a) then 1 else 0)"
    using d(2) by (simp add: days_before_month_13)
qed

text \<open>The ordinal grows with the date.\<close>

lemma toordinal_less:
  assumes "valid_date a" and "valid_date b" and "date_less a b"
  shows "toordinal a < toordinal b"
proof -
  consider (y) "year a < year b"
    | (m) "year a = year b" "month a < month b"
    | (d) "year a = year b" "month a = month b" "day a < day b"
    using assms(3) by (auto simp: date_less_def)
  then show ?thesis
  proof cases
    case y
    have "toordinal a \<le> days_before_year (year a) + 365 + (if is_leap (year a) then 1 else 0)"
      using day_of_year_bounds(2) [OF assms(1)] by (simp add: toordinal_def)
    also have "\<dots> \<le> days_before_year (year b)"
      using y by (rule days_before_year_next)
    also have "\<dots> < toordinal b"
      using day_of_year_bounds(1) [OF assms(2)] by (simp add: toordinal_def)
    finally show ?thesis .
  next
    case m
    have "1 \<le> month a" "day a \<le> days_in_month (year a) (month a)" "1 \<le> day b"
      using assms(1,2) by (simp_all add: valid_date_def)
    moreover have "days_before_month (year a) (month a) + int (days_in_month (year a) (month a))
                     \<le> days_before_month (year a) (month b)"
      using \<open>1 \<le> month a\<close> m(2) by (rule days_before_month_mono)
    ultimately show ?thesis
      using m(1) by (simp add: toordinal_def)
  next
    case d
    then show ?thesis by (simp add: toordinal_def)
  qed
qed

lemma date_trichotomy:
  "\<not> date_less (a::date) b \<Longrightarrow> a = b \<or> date_less b a"
  by (cases a; cases b) (auto simp: date_less_def)

lemma days_between_nonneg:
  assumes "valid_date a" and "valid_date b" and "\<not> date_less a b"
  shows "0 \<le> days_between a b"
  using date_trichotomy [OF assms(3)] toordinal_less [OF assms(2,1)]
  by (auto simp: days_between_def)


lemma replace_year_not_leap_day:
  assumes "valid_date b" and "\<not> (month b = 2 \<and> day b = 29)" and "1 \<le> y" and "y \<le> 9999"
  shows "replace_year b y = Inr \<lparr>year = y, month = month b, day = day b\<rparr> \<and>
         valid_date \<lparr>year = y, month = month b, day = day b\<rparr>"
  using assms
  by (auto simp: replace_year_def date_new_def valid_date_def days_in_month_def split: if_splits)

text \<open>
  For a birthday that is not 29 February, and a today before the year 9999, the number
  returned is the number of days from today to the birthday of this year, or of the next
  year when that of this year is before today; it is not negative, and it is 0 when the
  birthday is today.
\<close>

lemma days_to_birthday_not_leap_day:
  assumes "valid_date today" and "year today < 9999" and "birthday r = Some b"
    and "valid_date b" and "\<not> (month b = 2 \<and> day b = 29)"
  shows "let this_year = \<lparr>year = year today, month = month b, day = day b\<rparr>;
             next_year = \<lparr>year = year today + 1, month = month b, day = day b\<rparr>;
             next_birthday = (if date_less this_year today then next_year else this_year)
         in days_to_birthday today r = Inr (Some (days_between next_birthday today)) \<and>
            0 \<le> days_between next_birthday today \<and>
            (this_year = today \<longrightarrow> days_to_birthday today r = Inr (Some 0))"
proof -
  let ?ty = "\<lparr>year = year today, month = month b, day = day b\<rparr>"
  let ?ny = "\<lparr>year = year today + 1, month = month b, day = day b\<rparr>"
  have y: "1 \<le> year today" "year today \<le> 9999" "1 \<le> year today + 1" "year today + 1 \<le> 9999"
    using assms(1,2) by (simp_all add: valid_date_def)
  have ty: "replace_year b (year today) = Inr ?ty" "valid_date ?ty"
    using replace_year_not_leap_day [OF assms(4,5) y(1,2)] by simp_all
  have ny: "replace_year b (year today + 1) = Inr ?ny" "valid_date ?ny"
    using replace_year_not_leap_day [OF assms(4,5) y(3,4)] by simp_all
  show ?thesis
  proof (cases "date_less ?ty today")
    case True
    have "\<not> date_less ?ny today"
      by (simp add: date_less_def)
    then have "0 \<le> days_between ?ny today"
      using ny(2) assms(1) by (intro days_between_nonneg)
    moreover have "\<not> date_less today today"
      by (simp add: date_less_def)
    then have "?ty \<noteq> today"
      using True by auto
    ultimately show ?thesis
      using True ty(1) ny(1) assms(3) by (simp add: days_to_birthday_def Let_def)
  next
    case False
    then have "0 \<le> days_between ?ty today"
      using ty(2) assms(1) by (intro days_between_nonneg)
    moreover have "days_between today today = 0"
      by (simp add: days_between_def)
    ultimately show ?thesis
      using False ty(1) assms(3) by (auto simp: days_to_birthday_def Let_def)
  qed
qed

lemma days_to_birthday_no_birthday:
  "birthday r = None \<Longrightarrow> days_to_birthday today r = Inr None"
  by (simp add: days_to_birthday_def)

lemma Birthday_init_leap_day:
  "Birthday_init ''29.02.2000'' = Inr \<lparr>year = 2000, month = 2, day = 29\<rparr>"
  by (simp add: Birthday_init_def Birthday_unicode_def strptime_def format_matches_def
      group_d_def group_m_def group_Y_def literal_dot_def char_range_def py_ord_def
      latin1_decimal_def py_int_def date_new_def days_in_month_def is_leap_def)

text \<open>
  C3. The birthday 29.02.2000 is accepted by \<open>Birthday\<close>. On 3 November 2026 the
  record with that birthday makes \<open>days_to_birthday\<close> raise: \<open>replace\<close> builds
  29 February 2026, which does not exist. No number of days is returned.
\<close>

theorem days_to_birthday_leap_day:
  "Birthday_init ''29.02.2000'' = Inr \<lparr>year = 2000, month = 2, day = 29\<rparr> \<and>
   days_to_birthday \<lparr>year = 2026, month = 11, day = 3\<rparr>
     \<lparr>name = ''Ann'', phones = [], birthday = Some \<lparr>year = 2000, month = 2, day = 29\<rparr>\<rparr>
   = Inl (ValueError ''day is out of range for month'')"
  by (simp add: Birthday_init_leap_day days_to_birthday_def replace_year_def date_new_def
      days_in_month_def is_leap_def)

section \<open>Upcoming birthdays\<close>

text \<open>
  When \<open>days_to_birthday\<close> returns for every record, the loop returns the records with
  a birthday at most seven days ahead, in the order of the list; when it raises for one
  record, the loop raises.
\<close>

lemma upcoming_loop_returns:
  assumes "\<forall>r\<in>set rs. \<exists>d. days_to_birthday today r = Inr d"
  shows "upcoming_loop today rs acc =
           Inr (acc @ concat (map (\<lambda>r. case (birthday r, days_to_birthday today r) of
                                     (Some b, Inr (Some d)) \<Rightarrow>
                                       if 0 \<le> d \<and> d \<le> 7 then [(name r, b)] else []
                                   | _ \<Rightarrow> []) rs))"
  using assms
proof (induction rs arbitrary: acc)
  case Nil
  then show ?case by simp
next
  case (Cons r rs)
  then obtain d where d: "days_to_birthday today r = Inr d" by auto
  have rest: "\<forall>r\<in>set rs. \<exists>d. days_to_birthday today r = Inr d"
    using Cons.prems by simp
  show ?case
  proof (cases d)
    case None
    then show ?thesis
      using d Cons.IH [OF rest] by (simp split: option.splits)
  next
    case (Some k)
    then show ?thesis
      using d Cons.IH [OF rest] by (simp split: option.splits)
  qed
qed

lemma upcoming_loop_fails:
  assumes "r \<in> set rs" and "days_to_birthday today r = Inl e"
  shows "\<exists>e'. upcoming_loop today rs acc = Inl e'"
  using assms
proof (induction rs arbitrary: acc)
  case Nil
  then show ?case by simp
next
  case (Cons x xs)
  then show ?case
    by (cases "days_to_birthday today x") (auto split: option.splits)
qed

lemma map_values: "map f (map snd book) = map (\<lambda>(k, r). f r) book"
  by (induction book) auto

lemma get_upcoming_birthdays_returns:
  assumes "\<forall>r\<in>set (map snd book). \<exists>d. days_to_birthday today r = Inr d"
  shows "get_upcoming_birthdays today book =
           Inr (concat (map (\<lambda>(k, r). case (birthday r, days_to_birthday today r) of
                                     (Some b, Inr (Some d)) \<Rightarrow>
                                       if 0 \<le> d \<and> d \<le> 7 then [(name r, b)] else []
                                   | _ \<Rightarrow> []) book))"
proof -
  let ?f = "\<lambda>r. case (birthday r, days_to_birthday today r) of
                   (Some b, Inr (Some d)) \<Rightarrow> if 0 \<le> d \<and> d \<le> 7 then [(name r, b)] else []
                 | _ \<Rightarrow> []"
  have m: "map ?f (map snd book) = map (\<lambda>(k, r). ?f r) book"
    by (rule map_values)
  have "get_upcoming_birthdays today book = Inr ([] @ concat (map ?f (map snd book)))"
    unfolding get_upcoming_birthdays_def by (rule upcoming_loop_returns [OF assms])
  then show ?thesis
    unfolding m by simp
qed

text \<open>
  C4. On 3 November 2026, in the book of Ann, born on 29.02.2000, and Bob, born on
  03.11.1990, the birthday of Bob is today, yet \<open>get_upcoming_birthdays\<close> returns no
  list: it raises the error of Ann's record.
\<close>

theorem get_upcoming_birthdays_leap_day:
  "get_upcoming_birthdays \<lparr>year = 2026, month = 11, day = 3\<rparr>
     [(''Ann'', \<lparr>name = ''Ann'', phones = [],
                 birthday = Some \<lparr>year = 2000, month = 2, day = 29\<rparr>\<rparr>),
      (''Bob'', \<lparr>name = ''Bob'', phones = [],
                 birthday = Some \<lparr>year = 1990, month = 11, day = 3\<rparr>\<rparr>)]
   = Inl (ValueError ''day is out of range for month'')"
  by (simp add: get_upcoming_birthdays_def days_to_birthday_def replace_year_def date_new_def
      days_in_month_def is_leap_def)

section \<open>What the birthday parser accepts\<close>

text \<open>Code points of the characters of the expression, and the digits in the table.\<close>

lemma py_ord_values:
  "py_ord CHR ''0'' = 48" "py_ord CHR ''1'' = 49" "py_ord CHR ''2'' = 50" "py_ord CHR ''3'' = 51"
  "py_ord CHR ''9'' = 57" "py_ord CHR ''.'' = 46" "py_ord CHR '' '' = 32"
  by (simp_all add: py_ord_def)

lemma char_range_ascii:
  "char_range CHR ''0'' CHR ''1'' (ascii_digit k) \<longleftrightarrow> k \<le> 1"
  "char_range CHR ''0'' CHR ''2'' (ascii_digit k) \<longleftrightarrow> k \<le> 2"
  "char_range CHR ''1'' CHR ''2'' (ascii_digit k) \<longleftrightarrow> 1 \<le> k \<and> k \<le> 2"
  "char_range CHR ''1'' CHR ''9'' (ascii_digit k) \<longleftrightarrow> 1 \<le> k \<and> k \<le> 9"
  "char_range CHR ''0'' CHR ''9'' (ascii_digit k) \<longleftrightarrow> k \<le> 9"
  by (auto simp: char_range_def ascii_digit_def py_ord_values)

lemma char_range_digit:
  assumes "char_range lo hi c" and "py_ord CHR ''0'' \<le> py_ord lo"
  shows "\<exists>k. c = ascii_digit k"
proof -
  have "c = ascii_digit (c - py_ord CHR ''0'')"
    using assms by (simp add: char_range_def ascii_digit_def)
  then show ?thesis ..
qed

lemma not_dot:
  "ascii_digit k \<noteq> py_ord CHR ''.''" "py_ord CHR ''.'' \<noteq> ascii_digit k"
  "py_ord CHR ''.'' \<noteq> py_ord CHR '' ''"
  by (auto simp: ascii_digit_def py_ord_values)

lemma decimal_ascii: "unicode_decimal decimal \<Longrightarrow> k < 10 \<Longrightarrow> decimal (ascii_digit k) = Some k"
  by (simp add: unicode_decimal_def latin1_decimal_def char_range_def ascii_digit_def py_ord_values)

lemma decimal_bound: "unicode_decimal decimal \<Longrightarrow> decimal c = Some v \<Longrightarrow> v < 10"
  by (auto simp: unicode_decimal_def)

lemma decimal_dot_blank:
  assumes "unicode_decimal decimal"
  shows "decimal (py_ord CHR ''.'') = None" and "decimal (py_ord CHR '' '') = None"
  using assms
  by (simp_all add: unicode_decimal_def latin1_decimal_def char_range_def py_ord_values)

lemma decimal_not_dot:
  "unicode_decimal decimal \<Longrightarrow> decimal c = Some v \<Longrightarrow> c \<noteq> py_ord CHR ''.'' \<and> c \<noteq> py_ord CHR '' ''"
  using decimal_dot_blank [of decimal] by auto

lemma py_int_digits:
  assumes "unicode_decimal decimal" and "decimal a = Some v"
  shows "py_int decimal (a # cs) = int_digits decimal v cs"
  using assms decimal_not_dot [OF assms] by (simp add: py_int_def)

lemma py_int_blank:
  assumes "unicode_decimal decimal" and "decimal b = Some v"
  shows "py_int decimal [py_ord CHR '' '', b] = Some v"
  using assms decimal_not_dot [OF assms] by (simp add: py_int_def)

lemma group_d_cases:
  assumes "(D, r) \<in> set (group_d decimal s)"
  obtains (thirty) k where "s = D @ r" "D = [ascii_digit 3, ascii_digit k]" "k \<le> 1"
  | (teens) j b v where "s = D @ r" "D = [ascii_digit j, b]" "1 \<le> j" "j \<le> 2" "decimal b = Some v"
  | (zero) k where "s = D @ r" "D = [ascii_digit 0, ascii_digit k]" "1 \<le> k" "k \<le> 9"
  | (one) k where "s = D @ r" "D = [ascii_digit k]" "1 \<le> k" "k \<le> 9"
  | (blank) k where "s = D @ r" "D = [py_ord CHR '' '', ascii_digit k]" "1 \<le> k" "k \<le> 9"
proof -
  have d: "char_range lo hi c \<Longrightarrow> py_ord CHR ''0'' \<le> py_ord lo \<Longrightarrow>
      (\<And>k. c = ascii_digit k \<Longrightarrow> thesis) \<Longrightarrow> thesis" for lo hi c thesis
    using char_range_digit by blast
  from assms consider
      (a) a b where "s = a # b # r" "D = [a, b]" "a = py_ord CHR ''3''" "char_range CHR ''0'' CHR ''1'' b"
    | (b) a b where "s = a # b # r" "D = [a, b]" "char_range CHR ''1'' CHR ''2'' a" "decimal b \<noteq> None"
    | (c) a b where "s = a # b # r" "D = [a, b]" "a = py_ord CHR ''0''" "char_range CHR ''1'' CHR ''9'' b"
    | (d) a where "s = a # r" "D = [a]" "char_range CHR ''1'' CHR ''9'' a"
    | (e) a b where "s = a # b # r" "D = [a, b]" "a = py_ord CHR '' ''" "char_range CHR ''1'' CHR ''9'' b"
    by (auto simp: group_d_def split: list.splits if_splits)
  then show thesis
  proof cases
    case a
    from a(4) obtain k where k: "b = ascii_digit k"
      by (rule d) (simp add: py_ord_values)
    have "a = ascii_digit 3" using a(3) by (simp add: ascii_digit_def py_ord_values)
    then show thesis
      using thirty [of k] a k by (simp add: char_range_ascii)
  next
    case b
    from b(3) obtain j where j: "a = ascii_digit j"
      by (rule d) (simp add: py_ord_values)
    from b(4) obtain v where "decimal b = Some v" by auto
    then show thesis
      using teens [of j b v] b j by (simp add: char_range_ascii)
  next
    case c
    from c(4) obtain k where k: "b = ascii_digit k"
      by (rule d) (simp add: py_ord_values)
    have "a = ascii_digit 0" using c(3) by (simp add: ascii_digit_def py_ord_values)
    then show thesis
      using zero [of k] c k by (simp add: char_range_ascii)
  next
    case d
    from d(3) obtain k where k: "a = ascii_digit k"
      by (rule char_range_digit [THEN exE]) (simp_all add: py_ord_values)
    then show thesis
      using one [of k] d by (simp add: char_range_ascii)
  next
    case e
    from e(4) obtain k where k: "b = ascii_digit k"
      by (rule char_range_digit [THEN exE]) (simp_all add: py_ord_values)
    then show thesis
      using blank [of k] e by (simp add: char_range_ascii)
  qed
qed


lemma step10: "b < 10 \<Longrightarrow> (10 * a + b) div 10 = (a::nat) \<and> (10 * a + b) mod 10 = b"
  by simp

lemma group_d_sound:
  assumes u: "unicode_decimal decimal" and m: "(D, r) \<in> set (group_d decimal s)"
  shows "s = D @ r \<and> py_ord CHR ''.'' \<notin> set D \<and>
         (\<exists>d. py_int decimal D = Some d \<and> 1 \<le> d \<and> d \<le> 31 \<and> writes_day decimal D d)"
  using m
proof (cases rule: group_d_cases)
  case (thirty k)
  have "py_int decimal D = Some (30 + k)"
    using thirty u by (simp add: py_int_digits [OF u] decimal_ascii)
  moreover have "writes_day decimal D (30 + k)"
    using thirty step10 [of k 3] by (simp add: writes_day_def two_digits_def)
  moreover have "py_ord CHR ''.'' \<notin> set D"
    using thirty by (simp add: not_dot)
  ultimately show ?thesis using thirty by auto
next
  case (teens j b v)
  have v: "v < 10" using u teens(5) by (rule decimal_bound)
  have "py_int decimal D = Some (10 * j + v)"
    using teens u by (simp add: py_int_digits [OF u] decimal_ascii)
  moreover have "writes_day decimal D (10 * j + v)"
    using teens v by (simp add: writes_day_def)
  moreover have "py_ord CHR ''.'' \<notin> set D"
    using teens decimal_not_dot [OF u teens(5)] by (auto simp: not_dot)
  moreover have "1 \<le> 10 * j + v \<and> 10 * j + v \<le> 31"
    using teens v by simp
  ultimately show ?thesis using teens by auto
next
  case (zero k)
  have "py_int decimal D = Some k"
    using zero u by (simp add: py_int_digits [OF u] decimal_ascii)
  moreover have "writes_day decimal D k"
    using zero by (simp add: writes_day_def two_digits_def)
  moreover have "py_ord CHR ''.'' \<notin> set D"
    using zero by (simp add: not_dot)
  ultimately show ?thesis using zero by auto
next
  case (one k)
  have "py_int decimal D = Some k"
    using one u by (simp add: py_int_digits [OF u] decimal_ascii)
  moreover have "writes_day decimal D k"
    using one by (simp add: writes_day_def)
  moreover have "py_ord CHR ''.'' \<notin> set D"
    using one by (simp add: not_dot)
  ultimately show ?thesis using one by auto
next
  case (blank k)
  have "py_int decimal D = Some k"
    using blank u by (simp add: py_int_blank [OF u] decimal_ascii)
  moreover have "writes_day decimal D k"
    using blank by (simp add: writes_day_def)
  moreover have "py_ord CHR ''.'' \<notin> set D"
    using blank by (simp add: not_dot)
  ultimately show ?thesis using blank by auto
qed

lemma group_m_cases:
  assumes "(M, r) \<in> set (group_m s)"
  obtains (ten) k where "s = M @ r" "M = [ascii_digit 1, ascii_digit k]" "k \<le> 2"
  | (zero) k where "s = M @ r" "M = [ascii_digit 0, ascii_digit k]" "1 \<le> k" "k \<le> 9"
  | (one) k where "s = M @ r" "M = [ascii_digit k]" "1 \<le> k" "k \<le> 9"
proof -
  from assms consider
      (a) a b where "s = a # b # r" "M = [a, b]" "a = py_ord CHR ''1''" "char_range CHR ''0'' CHR ''2'' b"
    | (c) a b where "s = a # b # r" "M = [a, b]" "a = py_ord CHR ''0''" "char_range CHR ''1'' CHR ''9'' b"
    | (d) a where "s = a # r" "M = [a]" "char_range CHR ''1'' CHR ''9'' a"
    by (auto simp: group_m_def split: list.splits if_splits)
  then show thesis
  proof cases
    case a
    from a(4) obtain k where k: "b = ascii_digit k"
      by (rule char_range_digit [THEN exE]) (simp_all add: py_ord_values)
    have "a = ascii_digit 1" using a(3) by (simp add: ascii_digit_def py_ord_values)
    then show thesis
      using ten [of k] a k by (simp add: char_range_ascii)
  next
    case c
    from c(4) obtain k where k: "b = ascii_digit k"
      by (rule char_range_digit [THEN exE]) (simp_all add: py_ord_values)
    have "a = ascii_digit 0" using c(3) by (simp add: ascii_digit_def py_ord_values)
    then show thesis
      using zero [of k] c k by (simp add: char_range_ascii)
  next
    case d
    from d(3) obtain k where k: "a = ascii_digit k"
      by (rule char_range_digit [THEN exE]) (simp_all add: py_ord_values)
    then show thesis
      using one [of k] d by (simp add: char_range_ascii)
  qed
qed

lemma group_m_sound:
  assumes u: "unicode_decimal decimal" and m: "(M, r) \<in> set (group_m s)"
  shows "s = M @ r \<and> py_ord CHR ''.'' \<notin> set M \<and>
         (\<exists>m. py_int decimal M = Some m \<and> 1 \<le> m \<and> m \<le> 12 \<and> writes_month M m)"
  using m
proof (cases rule: group_m_cases)
  case (ten k)
  have "py_int decimal M = Some (10 + k)"
    using ten u by (simp add: py_int_digits [OF u] decimal_ascii)
  moreover have "writes_month M (10 + k)"
    using ten step10 [of k 1] by (simp add: writes_month_def two_digits_def)
  moreover have "py_ord CHR ''.'' \<notin> set M"
    using ten by (simp add: not_dot)
  ultimately show ?thesis using ten by auto
next
  case (zero k)
  have "py_int decimal M = Some k"
    using zero u by (simp add: py_int_digits [OF u] decimal_ascii)
  moreover have "writes_month M k"
    using zero by (simp add: writes_month_def two_digits_def)
  moreover have "py_ord CHR ''.'' \<notin> set M"
    using zero by (simp add: not_dot)
  ultimately show ?thesis using zero by auto
next
  case (one k)
  have "py_int decimal M = Some k"
    using one u by (simp add: py_int_digits [OF u] decimal_ascii)
  moreover have "writes_month M k"
    using one by (simp add: writes_month_def)
  moreover have "py_ord CHR ''.'' \<notin> set M"
    using one by (simp add: not_dot)
  ultimately show ?thesis using one by auto
qed

lemma four_digit_arith:
  fixes a b c d :: nat
  assumes "a < 10" "b < 10" "c < 10" "d < 10"
  defines "n \<equiv> 10 * (10 * (10 * a + b) + c) + d"
  shows "n div 1000 = a \<and> n div 100 mod 10 = b \<and> n div 10 mod 10 = c \<and> n mod 10 = d \<and> n \<le> 9999"
proof -
  have d1: "n div 10 = 10 * (10 * a + b) + c" and m1: "n mod 10 = d"
    unfolding n_def using step10 [OF assms(4), of "10 * (10 * a + b) + c"] by blast+
  have d2: "n div 10 div 10 = 10 * a + b" and m2: "n div 10 mod 10 = c"
    unfolding d1 using step10 [OF assms(3), of "10 * a + b"] by blast+
  have d3: "n div 10 div 10 div 10 = a" and m3: "n div 10 div 10 mod 10 = b"
    unfolding d2 using step10 [OF assms(2), of a] by blast+
  have e2: "n div 10 div 10 = n div 100" and e3: "n div 10 div 10 div 10 = n div 1000"
    by (simp_all add: div_mult2_eq [symmetric])
  have "n \<le> 9999" unfolding n_def using assms(1-4) by simp
  then show ?thesis
    using d3 m3 m2 m1 by (simp add: e2 e3)
qed

lemma group_Y_sound:
  assumes u: "unicode_decimal decimal" and m: "(Y, r) \<in> set (group_Y decimal s)"
  shows "s = Y @ r \<and> length Y = 4 \<and>
         (\<exists>y. py_int decimal Y = Some y \<and> y \<le> 9999 \<and> writes_year decimal Y y)"
proof -
  from m obtain a b c e va vb vc ve where s: "s = a # b # c # e # r" and Y: "Y = [a, b, c, e]"
    and d: "decimal a = Some va" "decimal b = Some vb" "decimal c = Some vc" "decimal e = Some ve"
    by (auto simp: group_Y_def split: list.splits if_splits)
  have v: "va < 10" "vb < 10" "vc < 10" "ve < 10"
    using d decimal_bound [OF u] by blast+
  let ?n = "10 * (10 * (10 * va + vb) + vc) + ve"
  have "py_int decimal Y = Some ?n"
    using d by (simp add: Y py_int_digits [OF u])
  moreover have "writes_year decimal Y ?n"
    using d four_digit_arith [OF v] by (simp add: writes_year_def Y)
  moreover have "?n \<le> 9999"
    using four_digit_arith [OF v] by blast
  ultimately show ?thesis using s Y by auto
qed


lemma group_d_complete:
  assumes u: "unicode_decimal decimal" and w: "writes_day decimal D d" and r: "1 \<le> d" "d \<le> 31"
  shows "(D, r) \<in> set (group_d decimal (D @ r)) \<and> py_int decimal D = Some d \<and>
         py_ord CHR ''.'' \<notin> set D"
proof -
  have z: "ascii_digit 0 = py_ord CHR ''0''" "ascii_digit 3 = py_ord CHR ''3''"
    by (simp_all add: ascii_digit_def py_ord_values)
  from w consider
      (two) "D = two_digits d" "d < 10"
    | (teens) b where "D = [ascii_digit (d div 10), b]" "decimal b = Some (d mod 10)" "10 \<le> d" "d \<le> 29"
    | (thirty) "D = two_digits d" "30 \<le> d"
    | (one) "D = [ascii_digit d]" "d < 10"
    | (blank) "D = [py_ord CHR '' '', ascii_digit d]" "d < 10"
  proof -
    assume a: "D = two_digits d \<Longrightarrow> d < 10 \<Longrightarrow> thesis"
      "\<And>b. D = [ascii_digit (d div 10), b] \<Longrightarrow> decimal b = Some (d mod 10) \<Longrightarrow> 10 \<le> d \<Longrightarrow> d \<le> 29 \<Longrightarrow> thesis"
      "D = two_digits d \<Longrightarrow> 30 \<le> d \<Longrightarrow> thesis"
      "D = [ascii_digit d] \<Longrightarrow> d < 10 \<Longrightarrow> thesis"
      "D = [py_ord CHR '' '', ascii_digit d] \<Longrightarrow> d < 10 \<Longrightarrow> thesis"
    from w consider "D = two_digits d" | "d < 10" "D = [ascii_digit d]"
      | "d < 10" "D = [py_ord CHR '' '', ascii_digit d]"
      | b where "10 \<le> d" "d \<le> 29" "D = [ascii_digit (d div 10), b]" "decimal b = Some (d mod 10)"
      by (auto simp: writes_day_def split: list.splits)
    then show thesis
    proof cases
      case 1
      consider "d < 10" | "10 \<le> d" "d \<le> 29" | "30 \<le> d" by linarith
      then show ?thesis
      proof cases
        case 1 then show ?thesis using a(1) \<open>D = two_digits d\<close> by blast
      next
        case 2
        have "decimal (ascii_digit (d mod 10)) = Some (d mod 10)"
          by (rule decimal_ascii [OF u]) simp
        then show ?thesis using a(2) [of "ascii_digit (d mod 10)"] 2 \<open>D = two_digits d\<close>
          by (simp add: two_digits_def)
      next
        case 3 then show ?thesis using a(3) \<open>D = two_digits d\<close> by blast
      qed
    next
      case 2 then show ?thesis using a(4) by blast
    next
      case 3 then show ?thesis using a(5) by blast
    next
      case 4 then show ?thesis using a(2) by blast
    qed
  qed
  then show ?thesis
  proof cases
    case two
    have D: "D = [ascii_digit 0, ascii_digit d]"
      using two by (simp add: two_digits_def)
    have "py_int decimal D = Some d"
      using two(2) by (simp add: D py_int_digits [OF u] decimal_ascii [OF u])
    moreover have "(D, r) \<in> set (group_d decimal (D @ r))"
      using two(2) r by (simp add: D group_d_def char_range_ascii z [symmetric])
    moreover have "py_ord CHR ''.'' \<notin> set D"
      by (simp add: D not_dot)
    ultimately show ?thesis by simp
  next
    case (teens b)
    have j: "1 \<le> d div 10" "d div 10 \<le> 2" "d div 10 < 10"
      using teens(3,4) by simp_all
    have "py_int decimal D = Some (10 * (d div 10) + d mod 10)"
      using teens j by (simp add: py_int_digits [OF u] decimal_ascii [OF u])
    then have "py_int decimal D = Some d" by simp
    moreover have "(D, r) \<in> set (group_d decimal (D @ r))"
      using teens j by (simp add: group_d_def char_range_ascii)
    moreover have "py_ord CHR ''.'' \<notin> set D"
      using teens(1) decimal_not_dot [OF u teens(2)] by (auto simp: not_dot)
    ultimately show ?thesis by simp
  next
    case thirty
    have dd: "d div 10 = 3" "d mod 10 \<le> 1" "d mod 10 < 10"
      using thirty(2) r(2) by presburger+
    have D: "D = [ascii_digit 3, ascii_digit (d mod 10)]"
      using thirty dd by (simp add: two_digits_def)
    have "py_int decimal D = Some (10 * 3 + d mod 10)"
      using dd by (simp add: D py_int_digits [OF u] decimal_ascii [OF u])
    also have "10 * 3 + d mod 10 = d"
      using dd(1) by presburger
    finally have "py_int decimal D = Some d" .
    moreover have "(D, r) \<in> set (group_d decimal (D @ r))"
      using dd by (simp add: D group_d_def char_range_ascii z [symmetric])
    moreover have "py_ord CHR ''.'' \<notin> set D"
      by (simp add: D not_dot)
    ultimately show ?thesis by simp
  next
    case one
    have "py_int decimal D = Some d"
      using one by (simp add: py_int_digits [OF u] decimal_ascii [OF u])
    moreover have "(D, r) \<in> set (group_d decimal (D @ r))"
      using one r by (cases r) (simp_all add: group_d_def char_range_ascii)
    moreover have "py_ord CHR ''.'' \<notin> set D"
      using one by (simp add: not_dot)
    ultimately show ?thesis by simp
  next
    case blank
    have "py_int decimal D = Some d"
      using blank by (simp add: py_int_blank [OF u] decimal_ascii [OF u])
    moreover have "(D, r) \<in> set (group_d decimal (D @ r))"
      using blank r by (simp add: group_d_def char_range_ascii)
    moreover have "py_ord CHR ''.'' \<notin> set D"
      using blank by (simp add: not_dot)
    ultimately show ?thesis by simp
  qed
qed

lemma group_m_complete:
  assumes u: "unicode_decimal decimal" and w: "writes_month M m" and r: "1 \<le> m" "m \<le> 12"
  shows "(M, r) \<in> set (group_m (M @ r)) \<and> py_int decimal M = Some m \<and>
         py_ord CHR ''.'' \<notin> set M"
proof -
  have z: "ascii_digit 0 = py_ord CHR ''0''" "ascii_digit 1 = py_ord CHR ''1''"
    by (simp_all add: ascii_digit_def py_ord_values)
  from w r consider
      (two) "M = [ascii_digit 0, ascii_digit m]" "m < 10"
    | (ten) "M = [ascii_digit 1, ascii_digit (m mod 10)]" "10 \<le> m" "m mod 10 \<le> 2"
    | (one) "M = [ascii_digit m]" "m < 10"
  proof -
    assume a: "M = [ascii_digit 0, ascii_digit m] \<Longrightarrow> m < 10 \<Longrightarrow> thesis"
      "M = [ascii_digit 1, ascii_digit (m mod 10)] \<Longrightarrow> 10 \<le> m \<Longrightarrow> m mod 10 \<le> 2 \<Longrightarrow> thesis"
      "M = [ascii_digit m] \<Longrightarrow> m < 10 \<Longrightarrow> thesis"
    from w consider "M = two_digits m" | "m < 10" "M = [ascii_digit m]"
      by (auto simp: writes_month_def)
    then show thesis
    proof cases
      case 1
      consider "m < 10" | "10 \<le> m" by linarith
      then show ?thesis
      proof cases
        case 1 then show ?thesis using a(1) \<open>M = two_digits m\<close> by (simp add: two_digits_def)
      next
        case 2
        have "m div 10 = 1" "m mod 10 \<le> 2" using 2 r(2) by presburger+
        then show ?thesis using a(2) 2 \<open>M = two_digits m\<close> by (simp add: two_digits_def)
      qed
    next
      case 2 then show ?thesis using a(3) by blast
    qed
  qed
  then show ?thesis
  proof cases
    case two
    have "py_int decimal M = Some m"
      using two by (simp add: py_int_digits [OF u] decimal_ascii [OF u])
    moreover have "(M, r) \<in> set (group_m (M @ r))"
      using two r by (simp add: group_m_def char_range_ascii z [symmetric])
    moreover have "py_ord CHR ''.'' \<notin> set M"
      using two by (simp add: not_dot)
    ultimately show ?thesis by simp
  next
    case ten
    have "py_int decimal M = Some (10 * 1 + m mod 10)"
      using ten by (simp add: py_int_digits [OF u] decimal_ascii [OF u])
    also have "10 * 1 + m mod 10 = m"
      using ten(2) r(2) by presburger
    finally have "py_int decimal M = Some m" .
    moreover have "(M, r) \<in> set (group_m (M @ r))"
      using ten by (simp add: group_m_def char_range_ascii z [symmetric])
    moreover have "py_ord CHR ''.'' \<notin> set M"
      using ten by (simp add: not_dot)
    ultimately show ?thesis by simp
  next
    case one
    have "py_int decimal M = Some m"
      using one by (simp add: py_int_digits [OF u] decimal_ascii [OF u])
    moreover have "(M, r) \<in> set (group_m (M @ r))"
      using one r by (cases r) (simp_all add: group_m_def char_range_ascii)
    moreover have "py_ord CHR ''.'' \<notin> set M"
      using one by (simp add: not_dot)
    ultimately show ?thesis by simp
  qed
qed

lemma four_digits_value:
  fixes y :: nat
  shows "10 * (10 * (10 * (y div 1000) + y div 100 mod 10) + y div 10 mod 10) + y mod 10 = y"
proof -
  have a: "y div 100 = y div 10 div 10" and b: "y div 1000 = y div 10 div 10 div 10"
    by (simp_all add: div_mult2_eq [symmetric])
  have "10 * (y div 10 div 10 div 10) + y div 10 div 10 mod 10 = y div 10 div 10"
    by simp
  then have "10 * (10 * (y div 1000) + y div 100 mod 10) + y div 10 mod 10 = y div 10"
    unfolding a b by simp
  then show ?thesis by simp
qed

lemma group_Y_complete:
  assumes u: "unicode_decimal decimal" and w: "writes_year decimal Y y"
  shows "(Y, r) \<in> set (group_Y decimal (Y @ r)) \<and> py_int decimal Y = Some y \<and> length Y = 4"
proof -
  from w obtain a b c e where Y: "Y = [a, b, c, e]"
    and d: "decimal a = Some (y div 1000)" "decimal b = Some (y div 100 mod 10)"
      "decimal c = Some (y div 10 mod 10)" "decimal e = Some (y mod 10)"
    by (auto simp: writes_year_def split: list.splits)
  have "py_int decimal Y =
      Some (10 * (10 * (10 * (y div 1000) + y div 100 mod 10) + y div 10 mod 10) + y mod 10)"
    using d by (simp add: Y py_int_digits [OF u])
  then have "py_int decimal Y = Some y"
    unfolding four_digits_value .
  moreover have "(Y, r) \<in> set (group_Y decimal (Y @ r))"
    using d by (simp add: Y group_Y_def)
  ultimately show ?thesis by (simp add: Y)
qed


lemma literal_dot_set: "r \<in> set (literal_dot s) \<longleftrightarrow> s = py_ord CHR ''.'' # r"
  by (auto simp: literal_dot_def split: list.splits)

lemma literal_dot_dot: "literal_dot (py_ord CHR ''.'' # r) = [r]"
  by (simp add: literal_dot_def)

lemma in_concat_map: "y \<in> set xs \<Longrightarrow> x \<in> set (f y) \<Longrightarrow> x \<in> set (concat (map f xs))"
  by auto

lemma format_matches_set:
  "(D, M, Y, rest) \<in> set (format_matches decimal s) \<longleftrightarrow>
     (\<exists>r2 r4. (D, py_ord CHR ''.'' # r2) \<in> set (group_d decimal s) \<and>
              (M, py_ord CHR ''.'' # r4) \<in> set (group_m r2) \<and>
              (Y, rest) \<in> set (group_Y decimal r4))"
proof
  assume "(D, M, Y, rest) \<in> set (format_matches decimal s)"
  then show "\<exists>r2 r4. (D, py_ord CHR ''.'' # r2) \<in> set (group_d decimal s) \<and>
      (M, py_ord CHR ''.'' # r4) \<in> set (group_m r2) \<and> (Y, rest) \<in> set (group_Y decimal r4)"
    by (auto simp: format_matches_def literal_dot_set) blast
next
  assume "\<exists>r2 r4. (D, py_ord CHR ''.'' # r2) \<in> set (group_d decimal s) \<and>
      (M, py_ord CHR ''.'' # r4) \<in> set (group_m r2) \<and> (Y, rest) \<in> set (group_Y decimal r4)"
  then obtain r2 r4 where a: "(D, py_ord CHR ''.'' # r2) \<in> set (group_d decimal s)"
    and b: "(M, py_ord CHR ''.'' # r4) \<in> set (group_m r2)"
    and c: "(Y, rest) \<in> set (group_Y decimal r4)"
    by blast
  show "(D, M, Y, rest) \<in> set (format_matches decimal s)"
    unfolding format_matches_def
    apply (rule in_concat_map [OF a])
    apply (simp only: prod.case literal_dot_dot list.map concat.simps append_Nil2)
    apply (rule in_concat_map [OF b])
    apply (simp only: prod.case literal_dot_dot list.map concat.simps append_Nil2)
    apply (rule image_eqI [OF _ c, THEN subst [OF set_map [symmetric], of "\<lambda>A. _ \<in> A"]])
    apply simp
    done
qed

lemma split_at_unique:
  "xs @ c # r = xs' @ c # r' \<Longrightarrow> c \<notin> set xs \<Longrightarrow> c \<notin> set xs' \<Longrightarrow> xs = xs' \<and> r = r'"
proof (induction xs arbitrary: xs')
  case Nil
  then show ?case by (cases xs') auto
next
  case (Cons x xs)
  then show ?case by (cases xs') auto
qed

text \<open>Every match of the format splits the string at its two dots, in one way.\<close>

lemma format_matches_sound:
  assumes u: "unicode_decimal decimal" and m: "(D, M, Y, rest) \<in> set (format_matches decimal s)"
  shows "s = D @ [py_ord CHR ''.''] @ M @ [py_ord CHR ''.''] @ Y @ rest \<and>
         py_ord CHR ''.'' \<notin> set D \<and> py_ord CHR ''.'' \<notin> set M \<and> length Y = 4 \<and>
         (\<exists>d m y. py_int decimal D = Some d \<and> py_int decimal M = Some m \<and>
                  py_int decimal Y = Some y \<and> 1 \<le> d \<and> d \<le> 31 \<and> 1 \<le> m \<and> m \<le> 12 \<and>
                  y \<le> 9999 \<and> writes_day decimal D d \<and> writes_month M m \<and>
                  writes_year decimal Y y)"
proof -
  from m obtain r2 r4 where a: "(D, py_ord CHR ''.'' # r2) \<in> set (group_d decimal s)"
    and b: "(M, py_ord CHR ''.'' # r4) \<in> set (group_m r2)"
    and c: "(Y, rest) \<in> set (group_Y decimal r4)"
    unfolding format_matches_set by blast
  show ?thesis
    using group_d_sound [OF u a] group_m_sound [OF u b] group_Y_sound [OF u c] by auto
qed

lemma date_new_valid:
  "date_new y m d = Inr dt \<longleftrightarrow> valid_date dt \<and> dt = \<lparr>year = y, month = m, day = d\<rparr>"
  by (auto simp: date_new_def valid_date_def)

text \<open>A spelling of a valid date is parsed as that date.\<close>

lemma strptime_written:
  assumes u: "unicode_decimal decimal" and v: "valid_date dt" and w: "written decimal s dt"
  shows "strptime decimal s = Inr dt"
proof -
  let ?dot = "py_ord CHR ''.''"
  from w obtain D M Y where s: "s = D @ [?dot] @ M @ [?dot] @ Y"
    and D: "writes_day decimal D (day dt)" and M: "writes_month M (month dt)"
    and Y: "writes_year decimal Y (year dt)"
    unfolding written_def by blast
  have dr: "1 \<le> day dt" "day dt \<le> 31" "1 \<le> month dt" "month dt \<le> 12"
    using v by (auto simp: valid_date_def days_in_month_def split: if_splits)
  have gd: "(D, ?dot # M @ ?dot # Y) \<in> set (group_d decimal s)"
    and pd: "py_int decimal D = Some (day dt)" and nd: "?dot \<notin> set D"
    using group_d_complete [OF u D dr(1,2), of "?dot # M @ ?dot # Y"] s by simp_all
  have gm: "(M, ?dot # Y) \<in> set (group_m (M @ ?dot # Y))"
    and pm: "py_int decimal M = Some (month dt)" and nm: "?dot \<notin> set M"
    using group_m_complete [OF u M dr(3,4), of "?dot # Y"] by simp_all
  have gy: "(Y, []) \<in> set (group_Y decimal Y)" and py: "py_int decimal Y = Some (year dt)"
    and ly: "length Y = 4"
    using group_Y_complete [OF u Y, of "[]"] by simp_all
  have mem: "(D, M, Y, []) \<in> set (format_matches decimal s)"
    unfolding format_matches_set using gd gm gy by blast
  then obtain x xs where xs: "format_matches decimal s = x # xs"
    by (cases "format_matches decimal s") auto
  obtain D' M' Y' rest' where x: "x = (D', M', Y', rest')"
    by (cases x) auto
  have "(D', M', Y', rest') \<in> set (format_matches decimal s)"
    using xs x by simp
  from format_matches_sound [OF u this]
  have s': "s = D' @ ?dot # (M' @ ?dot # (Y' @ rest'))" and nd': "?dot \<notin> set D'"
    and nm': "?dot \<notin> set M'" and ly': "length Y' = 4"
    by simp_all
  have s0: "s = D @ ?dot # (M @ ?dot # Y)"
    using s by simp
  have e1: "D' = D \<and> M' @ ?dot # (Y' @ rest') = M @ ?dot # Y"
    using split_at_unique [OF _ nd' nd] s' s0 by metis
  then have e2: "M' = M \<and> Y' @ rest' = Y"
    using split_at_unique [OF _ nm' nm] by metis
  with ly ly' have e3: "Y' = Y \<and> rest' = []"
    by (metis append_eq_append_conv append_Nil2)
  have "strptime decimal s = date_new (year dt) (month dt) (day dt)"
    using xs x e1 e2 e3 by (simp add: strptime_def pd pm py)
  also have "\<dots> = Inr dt"
    using v by (simp add: date_new_valid)
  finally show ?thesis .
qed

text \<open>What is parsed as a date is a spelling of it, and the date is valid.\<close>

lemma strptime_returns:
  assumes u: "unicode_decimal decimal" and p: "strptime decimal s = Inr dt"
  shows "valid_date dt \<and> written decimal s dt"
proof -
  from p obtain D M Y rest xs where fm: "format_matches decimal s = (D, M, Y, rest) # xs"
    by (auto simp: strptime_def split: list.splits)
  have "(D, M, Y, rest) \<in> set (format_matches decimal s)"
    using fm by simp
  from format_matches_sound [OF u this]
  obtain d m y where s: "s = D @ [py_ord CHR ''.''] @ M @ [py_ord CHR ''.''] @ Y @ rest"
    and i: "py_int decimal D = Some d" "py_int decimal M = Some m" "py_int decimal Y = Some y"
    and W: "writes_day decimal D d" "writes_month M m" "writes_year decimal Y y"
    by blast
  from p fm i have rest: "rest = []" and dn: "date_new y m d = Inr dt"
    by (auto simp: strptime_def split: if_splits)
  from dn have v: "valid_date dt" and dt: "dt = \<lparr>year = y, month = m, day = d\<rparr>"
    unfolding date_new_valid by blast+
  have "written decimal s dt"
    unfolding written_def using s rest W dt by auto
  with v show ?thesis by simp
qed

lemma dd_mm_yyyy_written:
  assumes u: "unicode_decimal decimal" and v: "valid_date dt"
  shows "written decimal (dd_mm_yyyy dt) dt \<and> matches_DD_MM_YYYY (dd_mm_yyyy dt)"
proof -
  have r: "day dt \<le> 31" "month dt \<le> 12" "year dt \<le> 9999"
    using v by (auto simp: valid_date_def days_in_month_def split: if_splits)
  have b: "day dt div 10 \<le> 9" "day dt mod 10 \<le> 9" "month dt div 10 \<le> 9" "month dt mod 10 \<le> 9"
    "year dt div 1000 \<le> 9" "year dt div 100 mod 10 \<le> 9" "year dt div 10 mod 10 \<le> 9"
    "year dt mod 10 \<le> 9"
    using r by simp_all
  then have "matches_DD_MM_YYYY (dd_mm_yyyy dt)"
    by (simp add: matches_DD_MM_YYYY_def dd_mm_yyyy_def two_digits_def four_digits_def
        char_range_ascii)
  moreover have "writes_year decimal (four_digits (year dt)) (year dt)"
    using b by (simp add: writes_year_def four_digits_def decimal_ascii [OF u])
  then have "written decimal (dd_mm_yyyy dt) dt"
    unfolding written_def dd_mm_yyyy_def
    by (intro exI [of _ "two_digits (day dt)"] exI [of _ "two_digits (month dt)"]
        exI [of _ "four_digits (year dt)"]) (simp add: writes_day_def writes_month_def)
  ultimately show ?thesis by simp
qed

text \<open>
  On a string of the code points 0 to 255 the parser reads the table on this range only, so
  the constructor of the records gives what the constructor on a \<open>str\<close> gives, whatever
  the rest of the table.
\<close>

lemma py_ord_less: "py_ord c < 256"
  by (simp add: py_ord_def)

lemma writes_day_cong:
  "\<forall>c\<in>set D. decimal c = decimal' c \<Longrightarrow> writes_day decimal D d = writes_day decimal' D d"
  by (auto simp: writes_day_def split: list.splits)

lemma writes_year_cong:
  "\<forall>c\<in>set Y. decimal c = decimal' c \<Longrightarrow> writes_year decimal Y y = writes_year decimal' Y y"
  by (auto simp: writes_year_def split: list.splits)

lemma written_cong:
  assumes "\<forall>c\<in>set s. decimal c = decimal' c"
  shows "written decimal s dt = written decimal' s dt"
proof -
  have "writes_day decimal D d = writes_day decimal' D d \<and>
        writes_year decimal Y y = writes_year decimal' Y y"
    if "s = D @ [py_ord CHR ''.''] @ M @ [py_ord CHR ''.''] @ Y" for D M Y d y
    using assms that writes_day_cong [of D decimal decimal' d] writes_year_cong [of Y decimal decimal' y]
    by auto
  then show ?thesis
    unfolding written_def by blast
qed

lemma unicode_decimal_latin1: "unicode_decimal latin1_decimal"
  by (auto simp: unicode_decimal_def latin1_decimal_def char_range_def py_ord_values)

lemma Birthday_unicode_returns:
  "unicode_decimal decimal \<Longrightarrow>
   Birthday_unicode decimal s = Inr dt \<longleftrightarrow> valid_date dt \<and> written decimal s dt"
  using strptime_returns [of decimal s dt] strptime_written [of decimal dt s]
  by (auto simp: Birthday_unicode_def split: sum.splits exn.splits)

lemma Birthday_init_any_table:
  assumes u: "unicode_decimal decimal"
  shows "Birthday_init v = Birthday_unicode decimal (map py_ord v)"
proof -
  let ?s = "map py_ord v"
  have "\<forall>c\<in>set ?s. decimal c = latin1_decimal c"
    using u py_ord_less by (auto simp: unicode_decimal_def)
  then have w: "written decimal ?s dt = written latin1_decimal ?s dt" for dt
    by (rule written_cong)
  show ?thesis
  proof (cases "Birthday_unicode decimal ?s")
    case (Inr dt)
    then have "Birthday_unicode latin1_decimal ?s = Inr dt"
      using Birthday_unicode_returns [OF u, of ?s dt]
        Birthday_unicode_returns [OF unicode_decimal_latin1, of ?s dt] w by simp
    then show ?thesis using Inr by (simp add: Birthday_init_def)
  next
    case (Inl e)
    have "Birthday_unicode latin1_decimal ?s \<noteq> Inr dt" for dt
      using Inl Birthday_unicode_returns [OF u, of ?s dt]
        Birthday_unicode_returns [OF unicode_decimal_latin1, of ?s dt] w by simp
    then obtain e' where "Birthday_unicode latin1_decimal ?s = Inl e'"
      by (cases "Birthday_unicode latin1_decimal ?s") auto
    then show ?thesis
      using Inl Birthday_unicode_raises [of decimal ?s e]
        Birthday_unicode_raises [of latin1_decimal ?s e']
      by (simp add: Birthday_init_def)
  qed
qed

text \<open>
  C5, as amended. Whatever the decimal digit values of the Unicode database beyond the code
  point 255, \<open>Birthday\<close> accepts a string \<open>s\<close>, of any code points, and stores the
  date \<open>dt\<close> exactly when \<open>dt\<close> is a valid calendar date and \<open>s\<close> is a spelling
  of it: day, dot, month, dot, year; the month with the digits 0 to 9, two of them or, below
  10, also one; the day with two of the digits 0 to 9 or, below 10, also with one digit or
  with a blank and one digit, where the second digit of a day from 10 to 29 may be any
  character with that decimal digit value; the year with four characters with decimal digit
  values, of any script. It fails with its own \<open>ValueError\<close> exactly when the string is
  a spelling of no valid date. Every valid date written as DD.MM.YYYY with the digits 0 to 9
  is accepted as that date. The constructor of the records, on strings of the code points 0
  to 255, is this constructor.
\<close>

theorem Birthday_accepts_written_dates:
  assumes u: "unicode_decimal decimal"
  shows "(Birthday_unicode decimal s = Inr dt \<longleftrightarrow> valid_date dt \<and> written decimal s dt) \<and>
   (Birthday_unicode decimal s = Inl (ValueError ''Invalid date format. Use DD.MM.YYYY'') \<longleftrightarrow>
      \<not> (\<exists>dt'. valid_date dt' \<and> written decimal s dt')) \<and>
   (valid_date dt \<longrightarrow>
      matches_DD_MM_YYYY (dd_mm_yyyy dt) \<and> Birthday_unicode decimal (dd_mm_yyyy dt) = Inr dt) \<and>
   Birthday_init v = Birthday_unicode decimal (map py_ord v)"
proof -
  note iff = Birthday_unicode_returns [OF u]
  have fails: "Birthday_unicode decimal s = Inl (ValueError ''Invalid date format. Use DD.MM.YYYY'') \<longleftrightarrow>
      \<not> (\<exists>dt'. valid_date dt' \<and> written decimal s dt')"
  proof (cases "Birthday_unicode decimal s")
    case (Inl e)
    then have "e = ValueError ''Invalid date format. Use DD.MM.YYYY''"
      by (rule Birthday_unicode_raises)
    moreover have "\<not> (\<exists>dt'. valid_date dt' \<and> written decimal s dt')"
      using Inl iff [of s] by auto
    ultimately show ?thesis using Inl by simp
  next
    case (Inr d)
    then show ?thesis using iff [of s d] by auto
  qed
  have strict: "valid_date dt \<longrightarrow>
      matches_DD_MM_YYYY (dd_mm_yyyy dt) \<and> Birthday_unicode decimal (dd_mm_yyyy dt) = Inr dt"
    using dd_mm_yyyy_written [OF u, of dt] iff [of "dd_mm_yyyy dt" dt] by blast
  show ?thesis
    using iff [of s dt] fails strict Birthday_init_any_table [OF u, of v] by blast
qed

theorem Birthday_accepts_written_dates_witness:
  "unicode_decimal arabic_decimal \<and>
   Birthday_unicode arabic_decimal [49, 1637, 46, 48, 50, 46, 1634, 1632, 1632, 1632] =
     Inr \<lparr>year = 2000, month = 2, day = 15\<rparr> \<and>
   \<not> (\<exists>dt'. valid_date dt' \<and>
          written arabic_decimal [1632, 1633, 46, 48, 50, 46, 50, 48, 48, 48] dt') \<and>
   Birthday_unicode arabic_decimal (map py_ord ''01.02.2000'') =
     Inr \<lparr>year = 2000, month = 2, day = 1\<rparr> \<and>
   Birthday_init ''1.2.2000'' = Birthday_unicode arabic_decimal (map py_ord ''1.2.2000'')"
proof -
  let ?d = "\<lparr>year = 2000, month = 2, day = 15\<rparr>"
  let ?e = "\<lparr>year = 2000, month = 2, day = 1\<rparr>"
  let ?s = "[49, 1637, 46, 48, 50, 46, 1634, 1632, 1632, 1632]"
  let ?t = "[1632, 1633, 46, 48, 50, 46, 50, 48, 48, 48]"
  have u: "unicode_decimal arabic_decimal"
    by (auto simp: unicode_decimal_def arabic_decimal_def latin1_decimal_def char_range_def
        py_ord_values)
  have v: "valid_date ?d" "valid_date ?e"
    by (simp_all add: valid_date_def days_in_month_def is_leap_def)
  have w: "written arabic_decimal ?s ?d"
    unfolding written_def
    by (intro exI [of _ "[49, 1637]"] exI [of _ "[48, 50]"] exI [of _ "[1634, 1632, 1632, 1632]"])
      (simp add: writes_day_def writes_month_def writes_year_def two_digits_def ascii_digit_def
        py_ord_def arabic_decimal_def char_range_def)
  have f: "Birthday_unicode arabic_decimal ?t =
      Inl (ValueError ''Invalid date format. Use DD.MM.YYYY'')"
    by (simp add: Birthday_unicode_def strptime_def format_matches_def
        group_d_def group_m_def group_Y_def literal_dot_def char_range_def py_ord_def
        arabic_decimal_def py_int_def date_new_def days_in_month_def is_leap_def)
  have g: "dd_mm_yyyy ?e = map py_ord ''01.02.2000''"
    by (simp add: dd_mm_yyyy_def two_digits_def four_digits_def ascii_digit_def py_ord_def)
  show ?thesis
    using u v w f g
      Birthday_accepts_written_dates [OF u, of ?s ?d "''1.2.2000''"]
      Birthday_accepts_written_dates [OF u, of ?t ?e "''1.2.2000''"]
    by simp
qed

text \<open>
  The claim C5 as it is written fails at the string 1.2.2000: it does not have the shape
  DD.MM.YYYY, and \<open>Birthday\<close> accepts it as 1 February 2000.
\<close>

theorem Birthday_init_short_form_counterexample:
  "\<not> matches_DD_MM_YYYY (map py_ord ''1.2.2000'') \<and>
   Birthday_init ''1.2.2000'' = Inr \<lparr>year = 2000, month = 2, day = 1\<rparr>"
  by (simp add: matches_DD_MM_YYYY_def Birthday_init_def Birthday_unicode_def strptime_def
      format_matches_def group_d_def group_m_def group_Y_def literal_dot_def char_range_def
      py_ord_def latin1_decimal_def py_int_def date_new_def days_in_month_def is_leap_def)

end
